theory Spec2Isabelle
  imports Complex_Main "HOL-Library.Word" "HOL-Library.Log_Nat"
begin

section \<open>Numbers\<close>

text \<open>
  The program computes in Go's \<open>float64\<close>.  The functions of \<open>plt/axis.go\<close> are embedded
  over a type \<open>'a\<close> that only has to provide the arithmetic symbols the source uses
  (\<open>0\<close>, \<open>1\<close>, \<open>+\<close>, \<open>-\<close>, \<open>*\<close>, \<open>/\<close>, \<open><\<close>), with no law assumed about them.
  Two instances are used below: \<open>float64\<close>, a model of IEEE 754 binary64 with
  round-to-nearest-even, signed zeros, infinities and NaN, which is what the program
  computes; and \<open>real\<close>, which is the same expressions in exact arithmetic.

  A numeric literal of the source is written \<open>lit n\<close>: the sum of \<open>n\<close> ones.  Every
  literal of the source is a small integer, for which that sum is exact in \<open>float64\<close>.
\<close>

primrec lit :: "nat \<Rightarrow> 'a::{zero,one,plus}" where
  "lit 0 = 0"
| "lit (Suc n) = lit n + 1"

subsection \<open>The model of \<open>float64\<close>\<close>

text \<open>
  A finite value is kept as the rational number it denotes (\<open>Fin 0\<close> is \<open>+0\<close>); negative
  zero, the two infinities and NaN are values of their own.  The result of an operation is
  the exact result rounded to the nearest representable value, ties to even (\<open>rnd\<close>).
\<close>

datatype float64 = Fin rat | NegZero | PInf | NInf | NaN

definition pow2 :: "int \<Rightarrow> rat" where
  "pow2 e = (if 0 \<le> e then 2 ^ nat e else 1 / 2 ^ nat (- e))"

text \<open>\<open>ilog2 q\<close> is the exponent \<open>k\<close> with \<open>pow2 k \<le> q < pow2 (k + 1)\<close>, for \<open>0 < q\<close>.\<close>

definition ilog2 :: "rat \<Rightarrow> int" where
  "ilog2 q = (let (n, d) = quotient_of q; k = bitlen n - bitlen d
              in if pow2 k \<le> q then k else k - 1)"

text \<open>Rounding to the nearest integer, ties to the even one.\<close>

definition rhe :: "rat \<Rightarrow> int" where
  "rhe x = (let f = \<lfloor>x\<rfloor>; r = x - of_int f in
     if r < 1 / 2 then f else if 1 / 2 < r then f + 1 else if even f then f else f + 1)"

text \<open>Rounding of a positive rational \<open>q\<close>: 53 significant bits, so the unit in the last
  place is \<open>pow2 (ilog2 q - 52)\<close>, but no smaller than \<open>pow2 (- 1074)\<close>; \<open>grid e q\<close> is the
  multiple of \<open>pow2 e\<close> nearest to \<open>q\<close>; overflow to infinity from \<open>pow2 1024\<close> on.\<close>

definition ulp_exp :: "rat \<Rightarrow> int" where
  "ulp_exp q = max (ilog2 q - 52) (- 1074)"

definition grid :: "int \<Rightarrow> rat \<Rightarrow> rat" where
  "grid e q = of_int (rhe (q / pow2 e)) * pow2 e"

definition round_pos :: "rat \<Rightarrow> float64" where
  "round_pos q = (let v = grid (ulp_exp q) q in if pow2 1024 \<le> v then PInf else Fin v)"

fun fneg :: "float64 \<Rightarrow> float64" where
  "fneg (Fin q) = (if q = 0 then NegZero else Fin (- q))"
| "fneg NegZero = Fin 0"
| "fneg PInf = NInf"
| "fneg NInf = PInf"
| "fneg NaN = NaN"

definition rnd :: "rat \<Rightarrow> float64" where
  "rnd q = (if q = 0 then Fin 0 else if 0 < q then round_pos q else fneg (round_pos (- q)))"

fun valof :: "float64 \<Rightarrow> rat" where
  "valof (Fin q) = q"
| "valof NegZero = 0"
| "valof PInf = 0"
| "valof NInf = 0"
| "valof NaN = 0"

fun signbit :: "float64 \<Rightarrow> bool" where
  "signbit (Fin q) = (q < 0)"
| "signbit NegZero = True"
| "signbit PInf = False"
| "signbit NInf = True"
| "signbit NaN = False"

fun is_finite :: "float64 \<Rightarrow> bool" where
  "is_finite (Fin q) = True"
| "is_finite NegZero = True"
| "is_finite PInf = False"
| "is_finite NInf = False"
| "is_finite NaN = False"

fun is_inf :: "float64 \<Rightarrow> bool" where
  "is_inf (Fin q) = False"
| "is_inf NegZero = False"
| "is_inf PInf = True"
| "is_inf NInf = True"
| "is_inf NaN = False"

definition is_zero :: "float64 \<Rightarrow> bool" where
  "is_zero a = (a = Fin 0 \<or> a = NegZero)"

definition signed_zero :: "bool \<Rightarrow> float64" where
  "signed_zero s = (if s then NegZero else Fin 0)"

definition signed_inf :: "bool \<Rightarrow> float64" where
  "signed_inf s = (if s then NInf else PInf)"

definition fadd :: "float64 \<Rightarrow> float64 \<Rightarrow> float64" where
  "fadd a b =
     (if a = NaN \<or> b = NaN then NaN
      else if is_inf a then (if is_inf b \<and> a \<noteq> b then NaN else a)
      else if is_inf b then b
      else if a = NegZero \<and> b = NegZero then NegZero
      else rnd (valof a + valof b))"

definition fmul :: "float64 \<Rightarrow> float64 \<Rightarrow> float64" where
  "fmul a b =
     (if a = NaN \<or> b = NaN then NaN
      else if is_inf a \<or> is_inf b then
        (if is_zero a \<or> is_zero b then NaN else signed_inf (signbit a \<noteq> signbit b))
      else if is_zero a \<or> is_zero b then signed_zero (signbit a \<noteq> signbit b)
      else rnd (valof a * valof b))"

definition fdiv :: "float64 \<Rightarrow> float64 \<Rightarrow> float64" where
  "fdiv a b =
     (if a = NaN \<or> b = NaN then NaN
      else if is_inf a then (if is_inf b then NaN else signed_inf (signbit a \<noteq> signbit b))
      else if is_inf b then signed_zero (signbit a \<noteq> signbit b)
      else if is_zero b then
        (if is_zero a then NaN else signed_inf (signbit a \<noteq> signbit b))
      else if is_zero a then signed_zero (signbit a \<noteq> signbit b)
      else rnd (valof a / valof b))"

text \<open>The comparisons of IEEE 754, which are Go's \<open><\<close> and \<open>==\<close> on \<open>float64\<close>: every
  comparison with NaN is false, and the two zeros are equal.\<close>

definition flt :: "float64 \<Rightarrow> float64 \<Rightarrow> bool" where
  "flt a b =
     (if a = NaN \<or> b = NaN then False
      else if a = PInf \<or> b = NInf then False
      else if a = NInf \<or> b = PInf then True
      else valof a < valof b)"

definition feq :: "float64 \<Rightarrow> float64 \<Rightarrow> bool" where
  "feq a b =
     (if a = NaN \<or> b = NaN then False
      else if is_inf a \<or> is_inf b then a = b
      else valof a = valof b)"

instantiation float64 :: "{zero,one,plus,minus,uminus,times,inverse,ord}"
begin

definition zero_float64 :: float64 where "zero_float64 = Fin 0"
definition one_float64 :: float64 where "one_float64 = Fin 1"
definition plus_float64 :: "float64 \<Rightarrow> float64 \<Rightarrow> float64" where "plus_float64 = fadd"
definition uminus_float64 :: "float64 \<Rightarrow> float64" where "uminus_float64 = fneg"
definition minus_float64 :: "float64 \<Rightarrow> float64 \<Rightarrow> float64" where
  "minus_float64 a b = fadd a (fneg b)"
definition times_float64 :: "float64 \<Rightarrow> float64 \<Rightarrow> float64" where "times_float64 = fmul"
definition divide_float64 :: "float64 \<Rightarrow> float64 \<Rightarrow> float64" where "divide_float64 = fdiv"
definition inverse_float64 :: "float64 \<Rightarrow> float64" where "inverse_float64 a = fdiv (Fin 1) a"
definition less_float64 :: "float64 \<Rightarrow> float64 \<Rightarrow> bool" where "less_float64 = flt"
definition less_eq_float64 :: "float64 \<Rightarrow> float64 \<Rightarrow> bool" where
  "less_eq_float64 a b = (flt a b \<or> feq a b)"

instance ..

end

text \<open>A value of the datatype is a \<open>float64\<close> proper when it is representable: rounding
  leaves it as it is.\<close>

definition is_float64 :: "float64 \<Rightarrow> bool" where
  "is_float64 a = (case a of Fin q \<Rightarrow> rnd q = Fin q | _ \<Rightarrow> True)"

text \<open>Modelled from the spec: \<open>vecgfx.PtInch\<close>, the number of points in an inch, is declared
  in the package \<open>vecgfx\<close>, outside this file; the spec gives it as 72 points per inch.\<close>

definition PtInch :: "'a::{zero,one,plus}" where
  "PtInch = lit 72"

section \<open>Data model\<close>

text \<open>\<open>color.RGBA\<close> of the Go library: four 8-bit channels.\<close>

datatype Color = RGBA (R: "8 word") (G: "8 word") (B: "8 word") (A: "8 word")

text \<open>\<open>vecgfx.FontExtents\<close> and the font handle.  A font is used only through its two
  queries \<open>Extents()\<close> and \<open>Width(s)\<close>, both in points.\<close>

record 'a FontExtents =
  Ascent :: 'a
  Descent :: 'a
  Height :: 'a

record 'a Font =
  Extents :: "'a FontExtents"
  Width_font :: "string \<Rightarrow> 'a"

record 'a TextStyle =
  Color_ts :: Color
  Font :: "'a Font"

record 'a LineStyle =
  Color :: Color
  Width :: 'a

record 'a Tick =
  Value :: 'a
  Label :: string

text \<open>\<open>TickMarks\<close> embeds the interface \<open>TickMarker\<close>, whose only method is
  \<open>Marks(min, max)\<close>; an interface value is modelled by that method.\<close>

record 'a TickMarks =
  LabelStyle :: "'a TextStyle"
  MarkStyle :: "'a LineStyle"
  Length :: 'a
  Marks :: "'a \<Rightarrow> 'a \<Rightarrow> 'a Tick list"

record 'a Axis =
  Min_ax :: 'a
  Max_ax :: 'a
  Label_ax :: string
  LabelStyle_ax :: "'a TextStyle"
  AxisStyle :: "'a LineStyle"
  Padding :: 'a
  Ticks :: "'a TickMarks"

record 'a Point =
  X :: 'a
  Y :: 'a

text \<open>The drawing area is declared outside this file.  The axis reads its corner \<open>Min\<close>
  and the results of its methods \<open>Max()\<close>, \<open>Center()\<close> and \<open>DPI()\<close>, and calls its drawing
  methods; a call is recorded as a command, in the order of the calls.\<close>

record 'a DrawArea =
  Min_da :: "'a Point"
  Max_da :: "'a Point"
  Center :: "'a Point"
  DPI :: 'a

datatype 'a DrawCmd =
  SetTextStyle "'a TextStyle"
| SetLineStyle "'a LineStyle"
| Text 'a 'a 'a 'a string
| Line "'a Point list"
| Push
| Pop
| Rotate 'a

section \<open>Ticks\<close>

definition minor :: "'a Tick \<Rightarrow> bool" where
  "minor t = (Label t = '''')"

definition lengthOffset :: "'a::{zero,one,plus,inverse} Tick \<Rightarrow> 'a \<Rightarrow> 'a" where
  "lengthOffset t len = (if minor t then len / lit 2 else 0)"

text \<open>\<open>DefaultTicks.Marks\<close>.  \<open>fmt_g\<close> stands for \<open>fmt.Sprintf("%g", _)\<close> of the Go library;
  a tick written without a label has Go's zero value, the empty string.\<close>

definition DefaultTicks_Marks ::
  "('a \<Rightarrow> string) \<Rightarrow> 'a::{zero,one,plus,minus,times,inverse} \<Rightarrow> 'a \<Rightarrow> 'a Tick list" where
  "DefaultTicks_Marks fmt_g mn mx =
     [ \<lparr>Value = mn, Label = fmt_g mn\<rparr>,
       \<lparr>Value = mn + (mx - mn) / lit 4, Label = ''''\<rparr>,
       \<lparr>Value = mn + (mx - mn) / lit 2, Label = fmt_g (mn + (mx - mn) / lit 2)\<rparr>,
       \<lparr>Value = mn + lit 3 * (mx - mn) / lit 4, Label = ''''\<rparr>,
       \<lparr>Value = mx, Label = fmt_g mx\<rparr> ]"

definition ConstantTicks_Marks :: "'a Tick list \<Rightarrow> 'a \<Rightarrow> 'a \<Rightarrow> 'a Tick list" where
  "ConstantTicks_Marks tks mn mx = tks"

section \<open>Label measurement\<close>

fun labelHeight :: "'a::{zero,one,plus,inverse} TickMarks \<Rightarrow> 'a Tick list \<Rightarrow> 'a" where
  "labelHeight tick [] = 0"
| "labelHeight tick (t # ticks) =
     (if minor t then labelHeight tick ticks
      else Ascent (Extents (Font (LabelStyle tick))) / PtInch)"

text \<open>The loop of \<open>labelWidth\<close>, with \<open>maxWidth\<close> as its state.\<close>

fun labelWidth_loop :: "'a::ord TickMarks \<Rightarrow> 'a \<Rightarrow> 'a Tick list \<Rightarrow> 'a" where
  "labelWidth_loop tick maxWidth [] = maxWidth"
| "labelWidth_loop tick maxWidth (t # ticks) =
     (if minor t then labelWidth_loop tick maxWidth ticks
      else let w = Width_font (Font (LabelStyle tick)) (Label t)
           in if maxWidth < w then labelWidth_loop tick w ticks
              else labelWidth_loop tick maxWidth ticks)"

definition labelWidth :: "'a::{zero,one,plus,inverse,ord} TickMarks \<Rightarrow> 'a Tick list \<Rightarrow> 'a" where
  "labelWidth tick ticks = labelWidth_loop tick 0 ticks / PtInch"

section \<open>The axis\<close>

text \<open>Go's \<open>error\<close> values, and the two ways a call can end: it returns, or it panics.\<close>

type_synonym error = string

datatype 'r outcome = Panic error | Return 'r

definition DefaultFont :: string where
  "DefaultFont = ''Times-Roman''"

text \<open>\<open>MakeTickMarks\<close>.  \<open>MakeFont\<close> is declared in another file of the package and is a
  parameter: it returns the font or an error.\<close>

definition MakeTickMarks ::
  "(string \<Rightarrow> 'a \<Rightarrow> error + 'a Font) \<Rightarrow> ('a \<Rightarrow> string) \<Rightarrow>
   'a::{zero,one,plus,minus,times,inverse} TickMarks outcome" where
  "MakeTickMarks MakeFont fmt_g =
     (case MakeFont DefaultFont (lit 10) of
        Inl err \<Rightarrow> Panic err
      | Inr labelFont \<Rightarrow>
          Return \<lparr> LabelStyle = \<lparr>Color_ts = RGBA 0 0 0 255, Font = labelFont\<rparr>,
                   MarkStyle = \<lparr>Color = RGBA 0 0 0 255, Width = 1 / lit 64\<rparr>,
                   Length = 1 / lit 10,
                   Marks = DefaultTicks_Marks fmt_g \<rparr>)"

text \<open>\<open>MakeAxis\<close>.  \<open>Black\<close> is declared in another file of the package, \<open>math_Inf\<close> is
  \<open>math.Inf\<close> of the Go library; both are parameters.\<close>

definition MakeAxis ::
  "(string \<Rightarrow> 'a \<Rightarrow> error + 'a Font) \<Rightarrow> Color \<Rightarrow> (int \<Rightarrow> 'a) \<Rightarrow> ('a \<Rightarrow> string) \<Rightarrow>
   'a::{zero,one,plus,minus,times,inverse} Axis outcome" where
  "MakeAxis MakeFont Black math_Inf fmt_g =
     (case MakeFont DefaultFont (lit 12) of
        Inl err \<Rightarrow> Panic err
      | Inr labelFont \<Rightarrow>
          (case MakeTickMarks MakeFont fmt_g of
             Panic err \<Rightarrow> Panic err
           | Return ticks \<Rightarrow>
               Return \<lparr> Min_ax = math_Inf 1,
                        Max_ax = math_Inf (- 1),
                        Label_ax = '''',
                        LabelStyle_ax = \<lparr>Color_ts = Black, Font = labelFont\<rparr>,
                        AxisStyle = \<lparr>Color = Black, Width = 1 / lit 64\<rparr>,
                        Padding = 1 / lit 8,
                        Ticks = ticks \<rparr>))"

definition Axis_X :: "'a::{minus,plus,times,inverse} Axis \<Rightarrow> 'a DrawArea \<Rightarrow> 'a \<Rightarrow> 'a" where
  "Axis_X a da x =
     (let p = (x - Min_ax a) / (Max_ax a - Min_ax a)
      in X (Min_da da) + p * (X (Max_da da) - X (Min_da da)))"

definition Axis_Y :: "'a::{minus,plus,times,inverse} Axis \<Rightarrow> 'a DrawArea \<Rightarrow> 'a \<Rightarrow> 'a" where
  "Axis_Y a da y =
     (let p = (y - Min_ax a) / (Max_ax a - Min_ax a)
      in Y (Min_da da) + p * (Y (Max_da da) - Y (Min_da da)))"

text \<open>\<open>height\<close>: the named result \<open>h\<close> starts at zero and is added to, statement by
  statement.\<close>

definition height :: "'a::{zero,one,plus,inverse} Axis \<Rightarrow> 'a" where
  "height a =
     (let h = 0;
          h = (if Label_ax a \<noteq> '''' then h + Height (Extents (Font (LabelStyle_ax a))) / PtInch
               else h);
          marks = Marks (Ticks a) (Min_ax a) (Max_ax a);
          h = (if marks \<noteq> [] then h + (Length (Ticks a) + labelHeight (Ticks a) marks) else h);
          h = h + Width (AxisStyle a) / lit 2;
          h = h + Padding a
      in h)"

definition width :: "'a::{zero,one,plus,inverse,ord} Axis \<Rightarrow> 'a" where
  "width a =
     (let w = 0;
          w = (if Label_ax a \<noteq> '''' then w + Ascent (Extents (Font (LabelStyle_ax a))) / PtInch
               else w);
          marks = Marks (Ticks a) (Min_ax a) (Max_ax a);
          w = (if marks \<noteq> [] then
                 (let lwidth = labelWidth (Ticks a) marks;
                      w = (if 0 < lwidth then
                             w + lwidth + Width_font (Font (LabelStyle (Ticks a))) '' '' / PtInch
                           else w)
                  in w + Length (Ticks a))
               else w);
          w = w + Width (AxisStyle a) / lit 2;
          w = w + Padding a
      in w)"

subsection \<open>Drawing\<close>

text \<open>The two loops over the tick marks of \<open>drawHoriz\<close>: the labels of the major ticks,
  then one line for every tick.\<close>

fun horiz_labels ::
  "'a::{zero,one,plus,minus,uminus,times,inverse} Axis \<Rightarrow> 'a DrawArea \<Rightarrow> 'a \<Rightarrow>
   'a Tick list \<Rightarrow> 'a DrawCmd list" where
  "horiz_labels a da y [] = []"
| "horiz_labels a da y (t # marks) =
     (if minor t then horiz_labels a da y marks
      else Text (Axis_X a da (Value t)) y (- (1 / lit 2)) 0 (Label t)
             # horiz_labels a da y marks)"

fun horiz_lines ::
  "'a::{zero,one,plus,minus,times,inverse} Axis \<Rightarrow> 'a DrawArea \<Rightarrow> 'a \<Rightarrow> 'a \<Rightarrow>
   'a Tick list \<Rightarrow> 'a DrawCmd list" where
  "horiz_lines a da y len [] = []"
| "horiz_lines a da y len (t # marks) =
     (let x = Axis_X a da (Value t)
      in Line [\<lparr>X = x, Y = y + lengthOffset t len\<rparr>, \<lparr>X = x, Y = y + len\<rparr>]
           # horiz_lines a da y len marks)"

text \<open>\<open>drawHoriz\<close>: the commands sent to the drawing area, in order.  The cursor \<open>y\<close> is
  threaded through the parts of the body: each part returns its commands and the cursor
  it leaves.\<close>

definition horiz_label_part ::
  "'a::{zero,one,plus,minus,uminus,times,inverse} Axis \<Rightarrow> 'a DrawArea \<Rightarrow> 'a \<Rightarrow>
   'a DrawCmd list \<times> 'a" where
  "horiz_label_part a da y =
     (if Label_ax a \<noteq> '''' then
        (let y1 = y + - (Descent (Extents (Font (LabelStyle_ax a))) / PtInch * DPI da);
             y2 = y1 + Ascent (Extents (Font (LabelStyle_ax a))) / PtInch * DPI da
         in ([SetTextStyle (LabelStyle_ax a),
              Text (X (Center da)) y1 (- (1 / lit 2)) 0 (Label_ax a)], y2))
      else ([], y))"

definition horiz_tick_part ::
  "'a::{zero,one,plus,minus,uminus,times,inverse} Axis \<Rightarrow> 'a DrawArea \<Rightarrow> 'a \<Rightarrow>
   'a DrawCmd list \<times> 'a" where
  "horiz_tick_part a da y =
     (let marks = Marks (Ticks a) (Min_ax a) (Max_ax a) in
      if marks \<noteq> [] then
        (let y1 = y + labelHeight (Ticks a) marks * DPI da;
             len = Length (Ticks a) * DPI da
         in ([SetLineStyle (MarkStyle (Ticks a)), SetTextStyle (LabelStyle (Ticks a))]
               @ horiz_labels a da y marks
               @ horiz_lines a da y1 len marks,
             y1 + len))
      else ([], y))"

definition drawHoriz ::
  "'a::{zero,one,plus,minus,uminus,times,inverse} Axis \<Rightarrow> 'a DrawArea \<Rightarrow> 'a DrawCmd list" where
  "drawHoriz a da =
     (let y = Y (Min_da da);
          (cmds1, y) = horiz_label_part a da y;
          (cmds2, y) = horiz_tick_part a da y
      in cmds1 @ cmds2
           @ [SetLineStyle (AxisStyle a),
              Line [\<lparr>X = X (Min_da da), Y = y\<rparr>, \<lparr>X = X (Max_da da), Y = y\<rparr>]])"

text \<open>\<open>drawVert\<close>, in the same way.  \<open>math_Pi\<close> is \<open>math.Pi\<close> of the Go library, a
  parameter.\<close>

fun vert_labels ::
  "'a::{zero,one,plus,minus,uminus,times,inverse} Axis \<Rightarrow> 'a DrawArea \<Rightarrow> 'a \<Rightarrow>
   'a Tick list \<Rightarrow> 'a DrawCmd list" where
  "vert_labels a da x [] = []"
| "vert_labels a da x (t # marks) =
     (if minor t then vert_labels a da x marks
      else Text x (Axis_Y a da (Value t)) (- 1) (- (1 / lit 2)) (Label t @ '' '')
             # vert_labels a da x marks)"

fun vert_lines ::
  "'a::{zero,one,plus,minus,times,inverse} Axis \<Rightarrow> 'a DrawArea \<Rightarrow> 'a \<Rightarrow> 'a \<Rightarrow>
   'a Tick list \<Rightarrow> 'a DrawCmd list" where
  "vert_lines a da x len [] = []"
| "vert_lines a da x len (t # marks) =
     (let y = Axis_Y a da (Value t)
      in Line [\<lparr>X = x + lengthOffset t len, Y = y\<rparr>, \<lparr>X = x + len, Y = y\<rparr>]
           # vert_lines a da x len marks)"

definition vert_label_part ::
  "'a \<Rightarrow> 'a::{zero,one,plus,minus,uminus,times,inverse} Axis \<Rightarrow> 'a DrawArea \<Rightarrow> 'a \<Rightarrow>
   'a DrawCmd list \<times> 'a" where
  "vert_label_part math_Pi a da x =
     (if Label_ax a \<noteq> '''' then
        (let x1 = x + Ascent (Extents (Font (LabelStyle_ax a))) / PtInch * DPI da;
             x2 = x1 + - Descent (Extents (Font (LabelStyle_ax a))) / PtInch * DPI da
         in ([SetTextStyle (LabelStyle_ax a), Push, Rotate (math_Pi / lit 2),
              Text (Y (Center da)) (- x1) (- (1 / lit 2)) 0 (Label_ax a), Pop], x2))
      else ([], x))"

definition vert_tick_part ::
  "'a::{zero,one,plus,minus,uminus,times,inverse,ord} Axis \<Rightarrow> 'a DrawArea \<Rightarrow> 'a \<Rightarrow>
   'a DrawCmd list \<times> 'a" where
  "vert_tick_part a da x =
     (let marks = Marks (Ticks a) (Min_ax a) (Max_ax a) in
      if marks \<noteq> [] then
        (let lwidth = labelWidth (Ticks a) marks;
             x1 = (if 0 < lwidth then
                     x + lwidth * DPI da
                       + Width_font (Font (LabelStyle (Ticks a))) '' '' / PtInch * DPI da
                   else x);
             len = Length (Ticks a) * DPI da
         in ([SetLineStyle (MarkStyle (Ticks a)), SetTextStyle (LabelStyle (Ticks a))]
               @ vert_labels a da x1 marks
               @ vert_lines a da x1 len marks,
             x1 + len))
      else ([], x))"

definition drawVert ::
  "'a \<Rightarrow> 'a::{zero,one,plus,minus,uminus,times,inverse,ord} Axis \<Rightarrow> 'a DrawArea \<Rightarrow>
   'a DrawCmd list" where
  "drawVert math_Pi a da =
     (let x = X (Min_da da);
          (cmds1, x) = vert_label_part math_Pi a da x;
          (cmds2, x) = vert_tick_part a da x
      in cmds1 @ cmds2
           @ [SetLineStyle (AxisStyle a),
              Line [\<lparr>X = x, Y = Y (Min_da da)\<rparr>, \<lparr>X = x, Y = Y (Max_da da)\<rparr>]])"

section \<open>Example values\<close>

text \<open>A font whose strings are 6 points wide per character, tick marks that hold a fixed
  list of ticks, and an axis with the default line widths, padding and tick length of
  \<open>MakeAxis\<close>.  The label font has ascent 9, descent \<open>-3\<close> and height 12 points, the tick
  label font ascent 9, descent \<open>-3\<close> and height 12 points.\<close>

definition ex_font :: "'a \<Rightarrow> 'a \<Rightarrow> 'a \<Rightarrow> 'a::{zero,one,plus} Font" where
  "ex_font asc desc h =
     \<lparr>Extents = \<lparr>Ascent = asc, Descent = desc, Height = h\<rparr>,
      Width_font = (\<lambda>s. lit (6 * length s))\<rparr>"

definition ex_ticks :: "'a Tick list \<Rightarrow> 'a::{zero,one,plus,uminus,inverse} TickMarks" where
  "ex_ticks tks =
     \<lparr>LabelStyle = \<lparr>Color_ts = RGBA 0 0 0 255, Font = ex_font (lit 9) (- lit 3) (lit 12)\<rparr>,
      MarkStyle = \<lparr>Color = RGBA 0 0 0 255, Width = 1 / lit 64\<rparr>,
      Length = 1 / lit 10,
      Marks = ConstantTicks_Marks tks\<rparr>"

definition ex_axis :: "string \<Rightarrow> 'a Tick list \<Rightarrow> 'a::{zero,one,plus,uminus,inverse} Axis" where
  "ex_axis l tks =
     \<lparr>Min_ax = 0, Max_ax = lit 10, Label_ax = l,
      LabelStyle_ax = \<lparr>Color_ts = RGBA 0 0 0 255, Font = ex_font (lit 9) (- lit 3) (lit 12)\<rparr>,
      AxisStyle = \<lparr>Color = RGBA 0 0 0 255, Width = 1 / lit 64\<rparr>,
      Padding = 1 / lit 8,
      Ticks = ex_ticks tks\<rparr>"


text \<open>A drawing area for the examples: 10 by 5 inches at 96 dots per inch, with its
  corner at the origin.\<close>

definition ex_area :: "'a::{zero,one,plus} DrawArea" where
  "ex_area = \<lparr>Min_da = \<lparr>X = 0, Y = 0\<rparr>, Max_da = \<lparr>X = lit 960, Y = lit 480\<rparr>,
              Center = \<lparr>X = lit 480, Y = lit 240\<rparr>, DPI = lit 96\<rparr>"

text \<open>Three ticks: two major ones, labelled \<open>0\<close> and \<open>10\<close>, and a minor one between them.\<close>

definition ex_marks :: "'a::{zero,one,plus} Tick list" where
  "ex_marks = [\<lparr>Value = 0, Label = ''0''\<rparr>, \<lparr>Value = lit 5, Label = ''''\<rparr>,
               \<lparr>Value = lit 10, Label = ''10''\<rparr>]"

text \<open>Two stand-ins for \<open>MakeFont\<close>: one that finds no font, one that finds every font.\<close>

definition ex_no_font :: "string \<Rightarrow> 'a \<Rightarrow> error + 'a Font" where
  "ex_no_font name sz = Inl ''font not found''"

definition ex_any_font :: "string \<Rightarrow> 'a \<Rightarrow> error + 'a::{zero,one,plus,uminus} Font" where
  "ex_any_font name sz = Inr (ex_font (lit 9) (- lit 3) (lit 12))"

text \<open>\<open>math.Inf\<close> of the Go library, in \<open>float64\<close>: positive infinity if the sign is not
  negative, negative infinity otherwise.\<close>

definition math_Inf_float64 :: "int \<Rightarrow> float64" where
  "math_Inf_float64 sign = (if 0 \<le> sign then PInf else NInf)"

text \<open>A stand-in for \<open>fmt.Sprintf("%g", _)\<close>: the whole numbers from 0 to 999999 are written
  in decimal digits, as \<open>%g\<close> writes them; every other value is written \<open>?\<close>.\<close>

fun decimal :: "nat \<Rightarrow> string" where
  "decimal n = (if n < 10 then [''0123456789'' ! n]
                else decimal (n div 10) @ [''0123456789'' ! (n mod 10)])"

definition ex_fmt_g :: "float64 \<Rightarrow> string" where
  "ex_fmt_g v =
     (case v of
        Fin q \<Rightarrow> if 0 \<le> q \<and> q < 1000000 \<and> of_int \<lfloor>q\<rfloor> = q then decimal (nat \<lfloor>q\<rfloor>) else ''?''
      | _ \<Rightarrow> ''?'')"

text \<open>A finite \<open>float64\<close>: neither an infinity nor NaN, and representable.\<close>

definition finite64 :: "float64 \<Rightarrow> bool" where
  "finite64 a = (is_finite a \<and> is_float64 a)"

text \<open>A drawing area whose corner is not at the origin: it spans \<open>x\<close> from 1.1 to 6.3
  and \<open>y\<close> from 0 to 4.\<close>

definition ex_area_offset :: "float64 DrawArea" where
  "ex_area_offset =
     \<lparr>Min_da = \<lparr>X = rnd (11 / 10), Y = 0\<rparr>, Max_da = \<lparr>X = rnd (63 / 10), Y = lit 4\<rparr>,
      Center = \<lparr>X = rnd (37 / 10), Y = lit 2\<rparr>, DPI = lit 96\<rparr>"

section \<open>Theorems\<close>

subsection \<open>Facts about rounding\<close>

lemma pow2_powi: "pow2 e = 2 powi e"
  by (simp add: pow2_def power_int_def field_simps)

lemma pow2_pos [simp]: "0 < pow2 e"
  by (simp add: pow2_powi)

lemma pow2_nz [simp]: "pow2 e \<noteq> 0"
  by (simp add: pow2_powi)

lemma pow2_add: "pow2 (a + b) = pow2 a * pow2 b"
  by (simp add: pow2_powi power_int_add)

lemma pow2_mono: "a \<le> b \<Longrightarrow> pow2 a \<le> pow2 b"
  by (simp add: pow2_powi power_int_increasing)

lemma pow2_strict_mono: "a < b \<Longrightarrow> pow2 a < pow2 b"
  by (simp add: pow2_powi power_int_strict_increasing)

lemma pow2_le_iff: "pow2 a \<le> pow2 b \<longleftrightarrow> a \<le> b"
  using pow2_mono pow2_strict_mono by (metis not_le)

lemma pow2_nat: "0 \<le> e \<Longrightarrow> pow2 e = of_int (2 ^ nat e)"
  by (simp add: pow2_def)

lemma pow2_0 [simp]: "pow2 0 = 1"
  by (simp add: pow2_def)

lemma bitlen_lower: "0 < n \<Longrightarrow> pow2 (bitlen n - 1) \<le> of_int n"
proof -
  assume n: "0 < n"
  from bitlen_bounds [OF n] have "2 ^ nat (bitlen n - 1) \<le> n" by simp
  moreover have "0 \<le> bitlen n - 1" using n by (simp add: bitlen_def floorlog_def)
  ultimately show ?thesis
    by (metis of_int_le_iff pow2_nat)
qed

lemma bitlen_upper: "0 < n \<Longrightarrow> of_int n < pow2 (bitlen n)"
proof -
  assume n: "0 < n"
  from bitlen_bounds [OF n] have "n < 2 ^ nat (bitlen n)" by simp
  moreover have "0 \<le> bitlen n" by (simp add: bitlen_nonneg)
  ultimately show ?thesis
    by (metis of_int_less_iff pow2_nat)
qed

lemma ilog2_bounds:
  assumes "0 < q"
  shows "pow2 (ilog2 q) \<le> q \<and> q < pow2 (ilog2 q + 1)"
proof -
  obtain n d where nd: "quotient_of q = (n, d)" by (cases "quotient_of q")
  have d: "0 < d" using nd quotient_of_denom_pos by blast
  have q: "q = of_int n / of_int d" using nd quotient_of_div by blast
  have n: "0 < n" using assms d q by (simp add: zero_less_divide_iff)
  define k where "k = bitlen n - bitlen d"
  have up: "q < pow2 (k + 1)"
  proof -
    have "of_int n < pow2 (bitlen n)" using n by (rule bitlen_upper)
    moreover have "pow2 (bitlen d - 1) \<le> of_int d" using d by (rule bitlen_lower)
    moreover have "pow2 (bitlen n) = pow2 (k + 1) * pow2 (bitlen d - 1)"
      unfolding k_def pow2_add [symmetric] by simp
    ultimately have "of_int n < pow2 (k + 1) * of_int d"
      by (smt (verit) mult_left_mono pow2_pos less_le_trans less_imp_le)
    then show ?thesis using d by (simp add: q pos_divide_less_eq)
  qed
  have lo: "pow2 (k - 1) \<le> q"
  proof -
    have "pow2 (bitlen n - 1) \<le> of_int n" using n by (rule bitlen_lower)
    moreover have "of_int d < pow2 (bitlen d)" using d by (rule bitlen_upper)
    moreover have "pow2 (bitlen n - 1) = pow2 (k - 1) * pow2 (bitlen d)"
      unfolding k_def pow2_add [symmetric] by simp
    ultimately have "pow2 (k - 1) * of_int d \<le> of_int n"
      by (smt (verit) mult_left_mono pow2_pos less_imp_le order_trans)
    then show ?thesis using d by (simp add: q pos_le_divide_eq)
  qed
  show ?thesis
  proof (cases "pow2 k \<le> q")
    case True
    then have "ilog2 q = k" by (simp add: ilog2_def nd k_def)
    then show ?thesis using True up by simp
  next
    case False
    then have "ilog2 q = k - 1" by (simp add: ilog2_def nd k_def)
    then show ?thesis using False lo by simp
  qed
qed

lemma ilog2_unique:
  assumes "pow2 k \<le> q" "q < pow2 (k + 1)"
  shows "ilog2 q = k"
proof -
  have q: "0 < q" using assms(1) pow2_pos by (rule less_le_trans [rotated])
  note b = ilog2_bounds [OF q]
  have "pow2 k < pow2 (ilog2 q + 1)" using assms(1) b by simp
  then have 1: "k < ilog2 q + 1" by (metis pow2_mono not_le)
  have "pow2 (ilog2 q) < pow2 (k + 1)" using assms(2) b by simp
  then have 2: "ilog2 q < k + 1" by (metis pow2_mono not_le)
  from 1 2 show ?thesis by simp
qed


lemma rhe_cases:
  "rhe x = \<lfloor>x\<rfloor> \<or> rhe x = \<lfloor>x\<rfloor> + 1"
  by (simp add: rhe_def Let_def)

lemma rhe_of_int [simp]: "rhe (of_int m) = m"
  by (simp add: rhe_def Let_def)

lemma rhe_lower: "x - 1 / 2 \<le> of_int (rhe x)"
  by (simp add: rhe_def Let_def) linarith

lemma rhe_upper: "of_int (rhe x) \<le> x + 1 / 2"
  by (simp add: rhe_def Let_def) linarith

lemma rhe_mono:
  assumes "x \<le> y"
  shows "rhe x \<le> rhe y"
proof -
  have fl: "\<lfloor>x\<rfloor> \<le> \<lfloor>y\<rfloor>" using assms by (rule floor_mono)
  show ?thesis
  proof (cases "\<lfloor>x\<rfloor> = \<lfloor>y\<rfloor>")
    case True
    have "x - of_int \<lfloor>x\<rfloor> \<le> y - of_int \<lfloor>y\<rfloor>" using assms True by simp
    then show ?thesis
      unfolding rhe_def Let_def using True by (auto split: if_splits)
  next
    case False
    then have "\<lfloor>x\<rfloor> + 1 \<le> \<lfloor>y\<rfloor>" using fl by simp
    moreover have "rhe x \<le> \<lfloor>x\<rfloor> + 1" using rhe_cases [of x] by auto
    moreover have "\<lfloor>y\<rfloor> \<le> rhe y" using rhe_cases [of y] by auto
    ultimately show ?thesis by linarith
  qed
qed

lemma rhe_eqI:
  assumes "\<bar>x - of_int m\<bar> < 1 / 2"
  shows "rhe x = m"
proof -
  have "of_int (rhe x) - (of_int m :: rat) < 1"
    using rhe_upper [of x] assms by linarith
  moreover have "(of_int m :: rat) - of_int (rhe x) < 1"
    using rhe_lower [of x] assms by linarith
  ultimately have "rhe x - m < 1" "m - rhe x < 1"
    by (metis of_int_diff of_int_less_1_iff)+
  then show ?thesis by simp
qed

lemma rhe_tie_down: "x = of_int m + 1 / 2 \<Longrightarrow> even m \<Longrightarrow> rhe x = m"
proof -
  assume x: "x = of_int m + 1 / 2" and m: "even m"
  have "\<lfloor>x\<rfloor> = m" unfolding x by linarith
  then show ?thesis using x m by (simp add: rhe_def Let_def)
qed

lemma rhe_tie_up: "x = of_int m - 1 / 2 \<Longrightarrow> even m \<Longrightarrow> rhe x = m"
proof -
  assume x: "x = of_int m - 1 / 2" and m: "even m"
  have f: "\<lfloor>x\<rfloor> = m - 1" unfolding x by linarith
  have "odd (m - 1)" using m by simp
  then show ?thesis using x f by (simp add: rhe_def Let_def)
qed

lemma round_pos_grid:
  "round_pos q = (if pow2 1024 \<le> grid (ulp_exp q) q then PInf else Fin (grid (ulp_exp q) q))"
  by (simp add: round_pos_def Let_def)

lemma pow2_diff_int: "e \<le> e' \<Longrightarrow> pow2 e' / pow2 e = of_int (2 ^ nat (e' - e))"
proof -
  assume "e \<le> e'"
  then have "pow2 (e' - e) = of_int (2 ^ nat (e' - e))" by (simp add: pow2_nat)
  moreover have "pow2 e' = pow2 (e' - e) * pow2 e" unfolding pow2_add [symmetric] by simp
  ultimately show ?thesis by simp
qed

lemma grid_point:
  assumes "e \<le> e'"
  shows "grid e (of_int n * pow2 e') = of_int n * pow2 e'"
proof -
  have ne: "pow2 e \<noteq> 0" by simp
  have eq: "of_int n * pow2 e' / pow2 e = of_int (n * 2 ^ nat (e' - e))"
    using pow2_diff_int [OF assms] by (simp only: times_divide_eq_right [symmetric] of_int_mult)
  have "grid e (of_int n * pow2 e') = of_int (n * 2 ^ nat (e' - e)) * pow2 e"
    unfolding grid_def eq rhe_of_int ..
  also have "\<dots> = of_int n * pow2 e' / pow2 e * pow2 e"
    unfolding eq ..
  also have "\<dots> = of_int n * pow2 e'" using ne by simp
  finally show ?thesis .
qed

lemma grid_mono: "x \<le> y \<Longrightarrow> grid e x \<le> grid e y"
  unfolding grid_def
  by (intro mult_right_mono) (auto intro!: rhe_mono divide_right_mono simp: less_imp_le)

lemma grid_le_point:
  "e \<le> e' \<Longrightarrow> q \<le> of_int n * pow2 e' \<Longrightarrow> grid e q \<le> of_int n * pow2 e'"
  using grid_mono [of q "of_int n * pow2 e'" e] grid_point [of e e' n] by simp

lemma grid_ge_point:
  "e \<le> e' \<Longrightarrow> of_int n * pow2 e' \<le> q \<Longrightarrow> of_int n * pow2 e' \<le> grid e q"
  using grid_mono [of "of_int n * pow2 e'" q e] grid_point [of e e' n] by simp

lemma ilog2_mono:
  assumes "0 < x" "x \<le> y"
  shows "ilog2 x \<le> ilog2 y"
proof -
  have y: "0 < y" using assms by simp
  have "pow2 (ilog2 x) \<le> x" using ilog2_bounds [OF assms(1)] by simp
  also have "x \<le> y" by fact
  also have "y < pow2 (ilog2 y + 1)" using ilog2_bounds [OF y] by simp
  finally have "ilog2 x < ilog2 y + 1" by (metis pow2_mono not_le)
  then show ?thesis by simp
qed

lemma ulp_exp_mono: "0 < x \<Longrightarrow> x \<le> y \<Longrightarrow> ulp_exp x \<le> ulp_exp y"
  using ilog2_mono [of x y] by (simp add: ulp_exp_def)

lemma grid_ulp_mono:
  assumes "0 < x" "x \<le> y"
  shows "grid (ulp_exp x) x \<le> grid (ulp_exp y) y"
proof (cases "ulp_exp x = ulp_exp y")
  case True
  then show ?thesis using grid_mono [OF assms(2)] by simp
next
  case False
  have y: "0 < y" using assms by simp
  define k where "k = ilog2 y"
  from False have lt: "ulp_exp x < ulp_exp y" using ulp_exp_mono [OF assms] by simp
  then have ey: "ulp_exp y = k - 52" and kx: "ilog2 x < k"
    by (auto simp: ulp_exp_def k_def)
  have ex: "ulp_exp x \<le> k" using lt ey by simp
  have "x < pow2 (ilog2 x + 1)" using ilog2_bounds [OF assms(1)] by simp
  also have "\<dots> \<le> pow2 k" using kx by (intro pow2_mono) simp
  finally have "x \<le> of_int 1 * pow2 k" by simp
  from grid_le_point [OF ex this] have 1: "grid (ulp_exp x) x \<le> pow2 k" by simp
  have "of_int 1 * pow2 k \<le> y" using ilog2_bounds [OF y] by (simp add: k_def)
  from grid_ge_point [OF _ this, of "ulp_exp y"] ey have 2: "pow2 k \<le> grid (ulp_exp y) y" by simp
  from 1 2 show ?thesis by simp
qed

lemma grid_nonneg: "0 \<le> q \<Longrightarrow> 0 \<le> grid e q"
  using grid_ge_point [of e e 0 q] by simp


lemma round_pos_nonneg_cases:
  assumes "0 < q"
  shows "round_pos q = PInf \<or> (\<exists>v. round_pos q = Fin v \<and> 0 \<le> v \<and> v < pow2 1024)"
  using grid_nonneg [of q "ulp_exp q"] assms
  by (auto simp: round_pos_grid)

lemma ilog2_less: "0 < q \<Longrightarrow> q < pow2 j \<Longrightarrow> ilog2 q < j"
proof -
  assume q: "0 < q" and "q < pow2 j"
  then have "pow2 (ilog2 q) < pow2 j" using ilog2_bounds [OF q] by simp
  then show ?thesis by (metis pow2_mono not_le)
qed

lemma round_pos_exact:
  assumes q: "q = of_int n * pow2 e" and pos: "0 < q" and e: "- 1074 \<le> e"
    and b: "q < pow2 (e + 53)" and ov: "q < pow2 1024"
  shows "round_pos q = Fin q"
proof -
  have "ilog2 q < e + 53" using pos b by (rule ilog2_less)
  then have "ulp_exp q \<le> e" using e by (simp add: ulp_exp_def)
  then have "grid (ulp_exp q) q = q" unfolding q by (rule grid_point)
  then show ?thesis using ov by (simp add: round_pos_grid)
qed

lemma rnd_exact:
  assumes q: "q = of_int n * pow2 e" and e: "- 1074 \<le> e"
    and b: "\<bar>q\<bar> < pow2 (e + 53)" and ov: "\<bar>q\<bar> < pow2 1024"
  shows "rnd q = Fin q"
proof (cases "0 < q")
  case True
  then show ?thesis using round_pos_exact [OF q True e] b ov by (simp add: rnd_def)
next
  case False
  show ?thesis
  proof (cases "q = 0")
    case True
    then show ?thesis by (simp add: rnd_def)
  next
    case nz: False
    have "- q = of_int (- n) * pow2 e" using q by simp
    from round_pos_exact [OF this _ e] b ov nz False have "round_pos (- q) = Fin (- q)" by simp
    then show ?thesis using nz False by (simp add: rnd_def)
  qed
qed

lemma rnd_of_int:
  assumes "\<bar>n\<bar> \<le> 2 ^ 53"
  shows "rnd (of_int n) = Fin (of_int n)"
proof (cases "\<bar>n\<bar> = 2 ^ 53")
  case True
  then consider "n = 2 ^ 53" | "n = - (2 ^ 53)" by (auto simp: abs_if split: if_splits)
  then show ?thesis
  proof cases
    case 1
    show ?thesis unfolding 1
      by (intro rnd_exact [where n = "2 ^ 52" and e = 1]) (simp_all add: pow2_def)
  next
    case 2
    show ?thesis unfolding 2
      by (intro rnd_exact [where n = "- (2 ^ 52)" and e = 1]) (simp_all add: pow2_def)
  qed
next
  case False
  then have "\<bar>n\<bar> < 2 ^ 53" using assms by simp
  then have "\<bar>of_int n :: rat\<bar> < 2 ^ 53" by (metis of_int_abs of_int_less_iff of_int_numeral of_int_power)
  then show ?thesis
    by (intro rnd_exact [where n = n and e = 0]) (simp_all add: pow2_def)
qed

lemma rnd_evalI:
  assumes "pow2 k \<le> q" "q < pow2 (k + 1)" "e = max (k - 52) (- 1074)"
    "rhe (q / pow2 e) = m" "of_int m * pow2 e = v" "v < pow2 1024"
  shows "rnd q = Fin v"
proof -
  have q: "0 < q" using assms(1) pow2_pos [of k] by linarith
  have "ilog2 q = k" using assms(1,2) by (rule ilog2_unique)
  then have "ulp_exp q = e" by (simp add: ulp_exp_def assms(3))
  moreover have "rhe (q / pow2 e) = m" by (rule assms(4))
  ultimately have "grid (ulp_exp q) q = v" using assms(5) by (simp add: grid_def)
  then show ?thesis using q assms(6) by (simp add: rnd_def round_pos_grid)
qed

lemma rnd_neg_evalI:
  assumes "pow2 k \<le> q" "q < pow2 (k + 1)" "e = max (k - 52) (- 1074)"
    "rhe (q / pow2 e) = m" "of_int m * pow2 e = v" "v < pow2 1024" "v \<noteq> 0"
  shows "rnd (- q) = Fin (- v)"
proof -
  have q: "0 < q" using assms(1) pow2_pos [of k] by linarith
  have "rnd q = Fin v" using assms(1-6) by (rule rnd_evalI)
  then have "round_pos q = Fin v" using q by (simp add: rnd_def)
  then show ?thesis using q assms(7) by (simp add: rnd_def)
qed

lemma grid_ge_pow2:
  assumes "0 < q" "- 1022 \<le> ilog2 q"
  shows "pow2 (ilog2 q) \<le> grid (ulp_exp q) q"
proof -
  have e: "ulp_exp q \<le> ilog2 q" using assms(2) by (simp add: ulp_exp_def)
  have "of_int 1 * pow2 (ilog2 q) \<le> q" using ilog2_bounds [OF assms(1)] by simp
  from grid_ge_point [OF e this] show ?thesis by simp
qed

lemma rnd_overflowI:
  assumes "pow2 1024 \<le> q"
  shows "rnd q = PInf"
proof -
  have q: "0 < q" using assms pow2_pos [of 1024] by linarith
  have "pow2 1024 < pow2 (ilog2 q + 1)" using assms ilog2_bounds [OF q] by simp
  then have k: "1024 \<le> ilog2 q" by (metis pow2_mono not_le zle_add1_eq_le)
  then have "pow2 1024 \<le> pow2 (ilog2 q)" by (rule pow2_mono)
  also have "\<dots> \<le> grid (ulp_exp q) q" using q k by (intro grid_ge_pow2) simp_all
  finally show ?thesis using q by (simp add: rnd_def round_pos_grid)
qed

lemma rnd_neg_overflowI:
  assumes "pow2 1024 \<le> q"
  shows "rnd (- q) = NInf"
proof -
  have q: "0 < q" using assms pow2_pos [of 1024] by linarith
  have "round_pos q = PInf" using rnd_overflowI [OF assms] q by (simp add: rnd_def)
  then show ?thesis using q by (simp add: rnd_def)
qed

lemma rnd_0 [simp]: "rnd 0 = Fin 0"
  by (simp add: rnd_def)

lemma lit_float64: "n \<le> 2 ^ 53 \<Longrightarrow> (lit n :: float64) = Fin (of_nat n)"
proof (induction n)
  case 0
  then show ?case by (simp add: zero_float64_def)
next
  case (Suc n)
  then have ih: "(lit n :: float64) = Fin (of_nat n)" by simp
  have "\<bar>int (Suc n)\<bar> \<le> 2 ^ 53" using Suc.prems by (metis abs_of_nat of_nat_le_iff of_nat_numeral of_nat_power)
  from rnd_of_int [OF this] have "rnd (of_nat n + 1) = Fin (of_nat n + 1)"
    by (simp add: add.commute)
  then show ?case
    by (simp add: ih plus_float64_def one_float64_def fadd_def)
qed

subsection \<open>Facts about the comparisons\<close>

lemma fle_Fin [simp]: "Fin a \<le> Fin b \<longleftrightarrow> a \<le> b"
  by (auto simp: less_eq_float64_def flt_def feq_def)

lemma flt_Fin [simp]: "Fin a < Fin b \<longleftrightarrow> a < b"
  by (simp add: less_float64_def flt_def)

lemma fle_not_NaN: "a \<le> b \<Longrightarrow> a \<noteq> NaN \<and> b \<noteq> NaN"
  by (auto simp: less_eq_float64_def flt_def feq_def split: if_splits)

lemma flt_not_NaN: "a < b \<Longrightarrow> a \<noteq> NaN \<and> b \<noteq> NaN"
  by (auto simp: less_float64_def flt_def split: if_splits)

lemma fle_refl: "a \<noteq> NaN \<Longrightarrow> a \<le> (a :: float64)"
  by (cases a) (auto simp: less_eq_float64_def flt_def feq_def)

lemma fle_trans: "a \<le> b \<Longrightarrow> b \<le> c \<Longrightarrow> a \<le> (c :: float64)"
  by (cases a; cases b; cases c) (auto simp: less_eq_float64_def flt_def feq_def split: if_splits)

lemma flt_fle: "a < b \<Longrightarrow> a \<le> (b :: float64)"
  by (simp add: less_eq_float64_def less_float64_def)

lemma not_flt_fle: "a \<noteq> NaN \<Longrightarrow> b \<noteq> NaN \<Longrightarrow> \<not> a < b \<Longrightarrow> b \<le> (a :: float64)"
  by (cases a; cases b) (auto simp: less_eq_float64_def less_float64_def flt_def feq_def split: if_splits)

lemma feq_refl: "a \<noteq> NaN \<Longrightarrow> feq a a"
  by (cases a) (auto simp: feq_def)

lemma fle_antisym: "a \<le> b \<Longrightarrow> b \<le> a \<Longrightarrow> feq a (b :: float64)"
  by (cases a; cases b) (auto simp: less_eq_float64_def flt_def feq_def split: if_splits)

subsection \<open>Monotonicity of rounding and of the operations\<close>

lemma fle_PInf [simp]: "a \<le> PInf \<longleftrightarrow> a \<noteq> NaN"
  by (cases a) (auto simp: less_eq_float64_def flt_def feq_def)

lemma fle_NInf [simp]: "NInf \<le> a \<longleftrightarrow> a \<noteq> NaN"
  by (cases a) (auto simp: less_eq_float64_def flt_def feq_def)

lemma fle_simps [simp]:
  "Fin x \<le> NegZero \<longleftrightarrow> x \<le> 0" "NegZero \<le> Fin x \<longleftrightarrow> 0 \<le> x" "NegZero \<le> NegZero"
  "\<not> PInf \<le> Fin x" "\<not> PInf \<le> NegZero" "\<not> PInf \<le> NInf"
  "\<not> Fin x \<le> NInf" "\<not> NegZero \<le> NInf"
  "\<not> NaN \<le> a" "\<not> a \<le> NaN"
  by (auto simp: less_eq_float64_def flt_def feq_def)

lemma flt_simps [simp]:
  "Fin x < NegZero \<longleftrightarrow> x < 0" "NegZero < Fin x \<longleftrightarrow> 0 < x" "\<not> NegZero < NegZero"
  "Fin x < PInf" "NegZero < PInf" "NInf < PInf" "NInf < Fin x" "NInf < NegZero"
  "\<not> PInf < a" "\<not> a < NInf" "\<not> NaN < a" "\<not> a < NaN"
  by (auto simp: less_float64_def flt_def)

lemma fle_NegZero [simp]: "a \<le> NegZero \<longleftrightarrow> a \<le> Fin 0" "NegZero \<le> a \<longleftrightarrow> Fin 0 \<le> a"
  by (cases a; auto simp: less_eq_float64_def flt_def feq_def)+

lemma fneg_mono: "a \<le> b \<Longrightarrow> fneg b \<le> fneg a"
  by (cases a; cases b) auto

lemma round_pos_mono:
  assumes "0 < x" "x \<le> y"
  shows "round_pos x \<le> round_pos y"
  using grid_ulp_mono [OF assms] by (auto simp: round_pos_grid)

lemma round_pos_ge0: "0 < x \<Longrightarrow> Fin 0 \<le> round_pos x"
  using grid_nonneg [of x "ulp_exp x"] by (auto simp: round_pos_grid)

lemma rnd_mono:
  assumes "x \<le> y"
  shows "rnd x \<le> rnd y"
proof -
  consider "0 < x" | "x = 0" "y = 0" | "x = 0" "0 < y" | "x < 0" "y < 0" | "x < 0" "y = 0"
    | "x < 0" "0 < y"
    using assms by linarith
  then show ?thesis
  proof cases
    case 1
    then show ?thesis using assms round_pos_mono [of x y] by (simp add: rnd_def)
  next
    case 2
    then show ?thesis by simp
  next
    case 3
    then show ?thesis using round_pos_ge0 [of y] by (simp add: rnd_def)
  next
    case 4
    then have "round_pos (- y) \<le> round_pos (- x)" using assms by (intro round_pos_mono) simp_all
    then show ?thesis using 4 fneg_mono by (simp add: rnd_def)
  next
    case 5
    then have "Fin 0 \<le> round_pos (- x)" by (intro round_pos_ge0) simp
    then have "fneg (round_pos (- x)) \<le> fneg (Fin 0)" by (rule fneg_mono)
    then have "fneg (round_pos (- x)) \<le> Fin 0"
      by (rule fle_trans) simp
    then show ?thesis using 5 by (simp add: rnd_def)
  next
    case 6
    then have "Fin 0 \<le> round_pos (- x)" by (intro round_pos_ge0) simp
    then have "fneg (round_pos (- x)) \<le> fneg (Fin 0)" by (rule fneg_mono)
    then have "fneg (round_pos (- x)) \<le> Fin 0"
      by (rule fle_trans) simp
    moreover have "Fin 0 \<le> round_pos y" using 6 by (intro round_pos_ge0)
    ultimately have "fneg (round_pos (- x)) \<le> round_pos y" by (rule fle_trans)
    then show ?thesis using 6 by (simp add: rnd_def)
  qed
qed

lemma rnd_not_NaN [simp]: "rnd q \<noteq> NaN"
  using rnd_mono [of q q] fle_not_NaN by blast


lemma rnd_sign:
  "0 \<le> q \<Longrightarrow> Fin 0 \<le> rnd q" "q \<le> 0 \<Longrightarrow> rnd q \<le> Fin 0"
  using rnd_mono [of 0 q] rnd_mono [of q 0] by simp_all

lemma fadd_mono_right:
  assumes "b \<le> b'" "is_finite a"
  shows "a + b \<le> a + b'"
proof -
  have nn: "b \<noteq> NaN" "b' \<noteq> NaN" using assms(1) fle_not_NaN by blast+
  show ?thesis
  proof (cases "is_finite b \<and> is_finite b'")
    case True
    then have v: "valof b \<le> valof b'" using assms(1) by (cases b; cases b') auto
    from rnd_mono [of "valof a + valof b" "valof a + valof b'"] v
    have r: "rnd (valof a + valof b) \<le> rnd (valof a + valof b')" by simp
    have z: "valof b' = 0 \<Longrightarrow> valof b \<le> 0" using v by simp
    show ?thesis using True assms(2) r v rnd_sign [of "valof b'"] rnd_sign [of "valof b"]
      by (cases a; cases b; cases b') (auto simp: plus_float64_def fadd_def)
  next
    case False
    then show ?thesis using assms nn
      by (cases a; cases b; cases b') (auto simp: plus_float64_def fadd_def)
  qed
qed

lemma fadd_mono_left:
  assumes "a \<le> a'" "is_finite c"
  shows "a + c \<le> a' + c"
proof -
  have nn: "a \<noteq> NaN" "a' \<noteq> NaN" using assms(1) fle_not_NaN by blast+
  show ?thesis
  proof (cases "is_finite a \<and> is_finite a'")
    case True
    then have v: "valof a \<le> valof a'" using assms(1) by (cases a; cases a') auto
    from rnd_mono [of "valof a + valof c" "valof a' + valof c"] v
    have r: "rnd (valof a + valof c) \<le> rnd (valof a' + valof c)" by simp
    show ?thesis using True assms(2) r v rnd_sign [of "valof a'"] rnd_sign [of "valof a"]
      by (cases a; cases a'; cases c) (auto simp: plus_float64_def fadd_def)
  next
    case False
    then show ?thesis using assms nn
      by (cases a; cases a'; cases c) (auto simp: plus_float64_def fadd_def)
  qed
qed

lemma is_finite_fneg [simp]: "is_finite (fneg c) = is_finite c"
  by (cases c) auto

lemma fsub_mono_left: "a \<le> a' \<Longrightarrow> is_finite c \<Longrightarrow> a - c \<le> a' - (c :: float64)"
  unfolding minus_float64_def plus_float64_def [symmetric]
  by (rule fadd_mono_left) simp_all

lemma fmul_mono_left:
  assumes "p \<le> p'" "is_finite w" "0 < valof w"
  shows "p * w \<le> p' * w"
proof -
  have nn: "p \<noteq> NaN" "p' \<noteq> NaN" using assms(1) fle_not_NaN by blast+
  obtain q where w: "w = Fin q" "0 < q" using assms(2,3) by (cases w) auto
  show ?thesis
  proof (cases "is_finite p \<and> is_finite p'")
    case True
    then have v: "valof p \<le> valof p'" using assms(1) by (cases p; cases p') auto
    then have "valof p * q \<le> valof p' * q" using w by (intro mult_right_mono) simp_all
    from rnd_mono [OF this]
    have r: "rnd (valof p * q) \<le> rnd (valof p' * q)" .
    have s: "valof p' = 0 \<Longrightarrow> rnd (valof p * q) \<le> Fin 0"
      "valof p = 0 \<Longrightarrow> Fin 0 \<le> rnd (valof p' * q)"
      using v w by (auto intro!: rnd_sign simp: mult_le_0_iff zero_le_mult_iff)
    show ?thesis using True r v s w
      by (cases p; cases p')
         (auto simp: times_float64_def fmul_def is_zero_def signed_zero_def split: if_splits)
  next
    case False
    then show ?thesis using assms(1) nn w
      by (cases p; cases p')
         (auto simp: times_float64_def fmul_def is_zero_def signed_zero_def signed_inf_def)
  qed
qed

lemma fdiv_mono_left:
  assumes "p \<le> p'" "is_finite d" "0 < valof d"
  shows "p / d \<le> p' / d"
proof -
  have nn: "p \<noteq> NaN" "p' \<noteq> NaN" using assms(1) fle_not_NaN by blast+
  obtain q where d: "d = Fin q" "0 < q" using assms(2,3) by (cases d) auto
  show ?thesis
  proof (cases "is_finite p \<and> is_finite p'")
    case True
    then have v: "valof p \<le> valof p'" using assms(1) by (cases p; cases p') auto
    then have "valof p / q \<le> valof p' / q" using d by (intro divide_right_mono) simp_all
    from rnd_mono [OF this]
    have r: "rnd (valof p / q) \<le> rnd (valof p' / q)" .
    have s: "valof p' = 0 \<Longrightarrow> rnd (valof p / q) \<le> Fin 0"
      "valof p = 0 \<Longrightarrow> Fin 0 \<le> rnd (valof p' / q)"
      using v d by (auto intro!: rnd_sign simp: divide_le_0_iff zero_le_divide_iff)
    show ?thesis using True r v s d
      by (cases p; cases p')
         (auto simp: divide_float64_def fdiv_def is_zero_def signed_zero_def split: if_splits)
  next
    case False
    then show ?thesis using assms(1) nn d
      by (cases p; cases p')
         (auto simp: divide_float64_def fdiv_def is_zero_def signed_zero_def signed_inf_def)
  qed
qed


subsection \<open>Representable values\<close>

lemma pow2_nonneg [simp]: "0 \<le> pow2 e" "\<not> pow2 e \<le> 0" "\<not> pow2 e < 0"
  using pow2_pos [of e] by (simp_all add: less_imp_le not_le not_less del: pow2_pos)

lemma pow2_numeral [simp]: "pow2 (numeral n) = 2 ^ numeral n" "pow2 1 = 2"
  by (simp_all add: pow2_def)

lemma pow2_Suc: "pow2 (e + 1) = 2 * pow2 e"
  by (simp add: pow2_add)

lemma grid_int:
  assumes "0 < q"
  shows "\<exists>m. grid (ulp_exp q) q = of_int m * pow2 (ulp_exp q) \<and> 0 \<le> m \<and> m \<le> 2 ^ 53"
proof -
  let ?e = "ulp_exp q"
  let ?m = "rhe (q / pow2 ?e)"
  have "0 \<le> q / pow2 ?e" using assms by (intro divide_nonneg_pos) simp_all
  then have "rhe 0 \<le> ?m" by (rule rhe_mono)
  then have lo: "0 \<le> ?m" using rhe_of_int [of 0] by simp
  have "q < pow2 (ilog2 q + 1)" using ilog2_bounds [OF assms] by simp
  also have "\<dots> \<le> pow2 (?e + 53)" by (intro pow2_mono) (simp add: ulp_exp_def)
  also have "\<dots> = pow2 53 * pow2 ?e" by (simp add: pow2_add mult.commute)
  finally have "q / pow2 ?e \<le> pow2 53" by (simp add: pos_divide_le_eq)
  then have "q / pow2 ?e \<le> of_int (2 ^ 53)" by simp
  then have "?m \<le> rhe (of_int (2 ^ 53))" by (rule rhe_mono)
  then have hi: "?m \<le> 2 ^ 53" unfolding rhe_of_int .
  show ?thesis using lo hi by (intro exI [of _ ?m]) (simp add: grid_def)
qed

lemma round_pos_idem:
  assumes "0 < q" "round_pos q = Fin v" "0 < v"
  shows "round_pos v = Fin v"
proof -
  let ?e = "ulp_exp q"
  from grid_int [OF assms(1)] obtain m where
    m: "grid ?e q = of_int m * pow2 ?e" "0 \<le> m" "m \<le> 2 ^ 53" by blast
  have v: "v = of_int m * pow2 ?e" and ov: "v < pow2 1024"
    using assms(2) m(1) by (auto simp: round_pos_grid split: if_splits)
  have e: "- 1074 \<le> ?e" by (simp add: ulp_exp_def)
  show ?thesis
  proof (cases "m = 2 ^ 53")
    case True
    have "v = of_int (2 ^ 52) * pow2 (?e + 1)"
      unfolding v True pow2_Suc by simp
    moreover have "v < pow2 (?e + 1 + 53)"
    proof -
      have "v = pow2 53 * pow2 ?e" unfolding v True by simp
      also have "\<dots> = pow2 (?e + 53)" by (simp add: pow2_add mult.commute)
      also have "\<dots> < pow2 (?e + 1 + 53)" by (intro pow2_strict_mono) simp
      finally show ?thesis .
    qed
    ultimately show ?thesis using assms(3) e ov
      by (intro round_pos_exact [where n = "2 ^ 52" and e = "?e + 1"]) simp_all
  next
    case False
    then have "m < 2 ^ 53" using m(3) by simp
    then have "(of_int m :: rat) < of_int (2 ^ 53)" by (simp only: of_int_less_iff)
    then have "(of_int m :: rat) < pow2 53" by simp
    then have "v < pow2 53 * pow2 ?e" unfolding v by (intro mult_strict_right_mono) simp_all
    also have "\<dots> = pow2 (?e + 53)" by (simp add: pow2_add mult.commute)
    finally show ?thesis using assms(3) e ov v
      by (intro round_pos_exact [where n = m and e = ?e]) simp_all
  qed
qed

lemma round_pos_cases:
  assumes "0 < q"
  shows "round_pos q = PInf \<or> (\<exists>v. round_pos q = Fin v \<and> 0 \<le> v)"
  using grid_nonneg [of q "ulp_exp q"] assms by (auto simp: round_pos_grid)

lemma is_float64_rnd [simp]: "is_float64 (rnd q)"
proof -
  have pos: "is_float64 (round_pos x) \<and> is_float64 (fneg (round_pos x))" if x: "0 < x" for x
  proof -
    from round_pos_cases [OF x] show ?thesis
    proof
      assume "round_pos x = PInf"
      then show ?thesis by (simp add: is_float64_def)
    next
      assume "\<exists>v. round_pos x = Fin v \<and> 0 \<le> v"
      then obtain v where v: "round_pos x = Fin v" "0 \<le> v" by blast
      show ?thesis
      proof (cases "v = 0")
        case True
        then show ?thesis using v by (simp add: is_float64_def)
      next
        case False
        then have vp: "0 < v" using v by simp
        from round_pos_idem [OF x v(1) vp] have "round_pos v = Fin v" .
        then show ?thesis using v vp by (simp add: is_float64_def rnd_def)
      qed
    qed
  qed
  show ?thesis
  proof (cases "q = 0")
    case True
    then show ?thesis by (simp add: is_float64_def)
  next
    case False
    then show ?thesis using pos [of q] pos [of "- q"] by (auto simp: rnd_def)
  qed
qed

lemma is_float64_multiple:
  assumes "is_float64 (Fin q)"
  shows "\<exists>n. q = of_int n * pow2 (- 1074)"
proof -
  have pos: "\<exists>n. x = of_int n * pow2 (- 1074)" if x: "0 < x" "round_pos x = Fin x" for x
  proof -
    from grid_int [OF x(1)] obtain m where m: "grid (ulp_exp x) x = of_int m * pow2 (ulp_exp x)" by blast
    have "x = of_int m * pow2 (ulp_exp x)"
      using x(2) m by (auto simp: round_pos_grid split: if_splits)
    moreover have "pow2 (ulp_exp x) = of_int (2 ^ nat (ulp_exp x + 1074)) * pow2 (- 1074)"
    proof -
      have "0 \<le> ulp_exp x + 1074" by (simp add: ulp_exp_def)
      then have "pow2 (ulp_exp x + 1074) = of_int (2 ^ nat (ulp_exp x + 1074))" by (rule pow2_nat)
      moreover have "pow2 (ulp_exp x) = pow2 (ulp_exp x + 1074) * pow2 (- 1074)"
        unfolding pow2_add [symmetric] by simp
      ultimately show ?thesis by simp
    qed
    ultimately have "x = of_int (m * 2 ^ nat (ulp_exp x + 1074)) * pow2 (- 1074)"
      by (simp only: of_int_mult mult.assoc)
    then show ?thesis by blast
  qed
  consider "q = 0" | "0 < q" | "q < 0" by linarith
  then show ?thesis
  proof cases
    case 1
    then show ?thesis by (intro exI [of _ 0]) simp
  next
    case 2
    then show ?thesis using assms pos [of q] by (simp add: is_float64_def rnd_def)
  next
    case 3
    then have "fneg (round_pos (- q)) = Fin q" using assms by (simp add: is_float64_def rnd_def)
    then have "round_pos (- q) = Fin (- q)"
      using 3 by (cases "round_pos (- q)") (auto split: if_splits)
    from pos [OF _ this] 3 obtain n where "- q = of_int n * pow2 (- 1074)" by auto
    then have "q = of_int (- n) * pow2 (- 1074)" by simp
    then show ?thesis by blast
  qed
qed

lemma rnd_pow2_min: "rnd (pow2 (- 1074)) = Fin (pow2 (- 1074))"
proof -
  have a: "\<bar>pow2 (- 1074)\<bar> = pow2 (- 1074)" by (rule abs_of_pos) simp
  show ?thesis
    by (rule rnd_exact [where n = 1 and e = "- 1074"])
       (simp_all add: a pow2_strict_mono del: pow2_numeral)
qed

lemma fsub_pos:
  assumes "is_float64 (Fin x)" "is_float64 (Fin y)" "x < y"
  shows "Fin y - Fin x = PInf \<or> (\<exists>d. Fin y - Fin x = Fin d \<and> 0 < d)"
proof -
  obtain n m where n: "x = of_int n * pow2 (- 1074)" and m: "y = of_int m * pow2 (- 1074)"
    using assms(1,2) is_float64_multiple by blast
  have "n < m" using assms(3) unfolding n m by (simp add: mult_less_cancel_right)
  then have "1 \<le> m - n" by simp
  then have "(1 :: rat) \<le> of_int (m - n)" by (simp only: of_int_1_le_iff)
  then have "1 * pow2 (- 1074) \<le> of_int (m - n) * pow2 (- 1074)"
    by (intro mult_right_mono) simp_all
  then have "pow2 (- 1074) \<le> y - x" unfolding n m by (simp add: algebra_simps)
  from rnd_mono [OF this] have ge: "Fin (pow2 (- 1074)) \<le> rnd (y - x)"
    unfolding rnd_pow2_min .
  have eq: "Fin y - Fin x = rnd (y - x)"
    using assms(3) by (auto simp: minus_float64_def fadd_def)
  have p: "0 < pow2 (- 1074)" by simp
  show ?thesis unfolding eq using ge p
    by (cases "rnd (y - x)") (auto simp del: pow2_pos)
qed


subsection \<open>The affine map of \<open>Axis.X\<close> and \<open>Axis.Y\<close> in \<open>float64\<close>\<close>

lemma is_float64_special [simp]:
  "is_float64 NaN" "is_float64 PInf" "is_float64 NInf" "is_float64 NegZero" "is_float64 (Fin 0)"
  by (simp_all add: is_float64_def)

lemma is_float64_fadd [simp]: "is_float64 (a + b)"
  by (cases a; cases b) (auto simp: plus_float64_def fadd_def)

lemma is_float64_fsub [simp]: "is_float64 (a - (b :: float64))"
  unfolding minus_float64_def plus_float64_def [symmetric] by simp

lemma fsub_self: "is_finite a \<Longrightarrow> a - a = Fin 0"
  by (cases a) (auto simp: minus_float64_def fadd_def)

lemma fmul_one: "is_float64 w \<Longrightarrow> Fin 1 * w = w"
  by (cases w)
     (auto simp: times_float64_def fmul_def is_zero_def signed_zero_def signed_inf_def is_float64_def)

lemma fdiv_self:
  assumes "is_float64 (Fin d)" "0 < d"
  shows "Fin d / Fin d = Fin 1"
proof -
  have "rnd 1 = Fin 1" using rnd_of_int [of 1] by simp
  then show ?thesis using assms(2) by (simp add: divide_float64_def fdiv_def is_zero_def)
qed

lemma is_finite_fsub: "is_finite (a - b) \<Longrightarrow> is_finite a \<and> is_finite (b :: float64)"
  by (cases a; cases b) (auto simp: minus_float64_def fadd_def split: if_splits)

lemma fsub_pos_finite64:
  assumes "finite64 a" "finite64 b" "a < b"
  shows "b - a = PInf \<or> (\<exists>d. b - a = Fin d \<and> 0 < d)"
proof -
  have z: "is_float64 (Fin 0)" by simp
  consider x y where "a = Fin x" "b = Fin y" | y where "a = NegZero" "b = Fin y"
    | x where "a = Fin x" "b = NegZero" | "a = NegZero" "b = NegZero"
    using assms(1,2) by (cases a; cases b) (auto simp: finite64_def)
  then show ?thesis
  proof cases
    case 1
    then show ?thesis using assms fsub_pos [of x y] by (simp add: finite64_def)
  next
    case 2
    then have "b - a = Fin y - Fin 0" by (simp add: minus_float64_def fadd_def)
    then show ?thesis using 2 assms fsub_pos [of 0 y] by (simp add: finite64_def)
  next
    case 3
    then have "b - a = Fin 0 - Fin x" using assms(3) by (auto simp: minus_float64_def fadd_def)
    then show ?thesis using 3 assms fsub_pos [of x 0] by (simp add: finite64_def)
  next
    case 4
    then show ?thesis using assms(3) by simp
  qed
qed

lemma affine_max:
  fixes lo hi :: float64
  assumes "finite64 mn" "finite64 mx" "mn < mx" "is_finite (mx - mn)"
  shows "lo + (mx - mn) / (mx - mn) * (hi - lo) = lo + (hi - lo)"
proof -
  from fsub_pos_finite64 [OF assms(1-3)] assms(4) obtain d where d: "mx - mn = Fin d" "0 < d"
    by auto
  have "is_float64 (Fin d)" using is_float64_fsub [of mx mn] unfolding d .
  then have "Fin d / Fin d = Fin 1" using d(2) by (rule fdiv_self)
  then show ?thesis unfolding d by (simp add: fmul_one)
qed

lemma affine_min:
  fixes lo hi :: float64
  assumes "finite64 mn" "finite64 mx" "mn < mx"
    and "is_float64 lo" "is_finite (hi - lo)"
  shows "feq (lo + (mn - mn) / (mx - mn) * (hi - lo)) lo"
proof -
  have z: "mn - mn = Fin 0" using assms(1) by (intro fsub_self) (simp add: finite64_def)
  have p: "Fin 0 / (mx - mn) = Fin 0"
    using fsub_pos_finite64 [OF assms(1-3)]
    by (auto simp: divide_float64_def fdiv_def is_zero_def signed_zero_def)
  have lo: "is_finite lo" using is_finite_fsub [OF assms(5)] by simp
  have m: "Fin 0 * (hi - lo) = Fin 0 \<or> Fin 0 * (hi - lo) = NegZero"
    using assms(5) by (cases "hi - lo")
      (auto simp: times_float64_def fmul_def is_zero_def signed_zero_def)
  have "feq (lo + Fin 0) lo" "feq (lo + NegZero) lo"
    using lo assms(4) by (cases lo; auto simp: plus_float64_def fadd_def feq_def is_float64_def)+
  then show ?thesis unfolding z p using m by auto
qed

lemma affine_monotone:
  fixes lo hi :: float64
  assumes "finite64 mn" "finite64 mx" "mn < mx" "is_finite (mx - mn)"
    and "finite64 lo" "finite64 hi" "lo < hi" "is_finite (hi - lo)"
    and "x1 \<le> x2"
  shows "lo + (x1 - mn) / (mx - mn) * (hi - lo) \<le> lo + (x2 - mn) / (mx - mn) * (hi - lo)"
proof -
  from fsub_pos_finite64 [OF assms(1-3)] assms(4) obtain d where d: "mx - mn = Fin d" "0 < d"
    by auto
  from fsub_pos_finite64 [OF assms(5-7)] assms(8) obtain w where w: "hi - lo = Fin w" "0 < w"
    by auto
  have "x1 - mn \<le> x2 - mn" using assms(9,1) by (intro fsub_mono_left) (simp_all add: finite64_def)
  then have "(x1 - mn) / Fin d \<le> (x2 - mn) / Fin d"
    using d(2) by (intro fdiv_mono_left) simp_all
  then have "(x1 - mn) / Fin d * Fin w \<le> (x2 - mn) / Fin d * Fin w"
    using w(2) by (intro fmul_mono_left) simp_all
  then show ?thesis unfolding d w using assms(5) by (intro fadd_mono_right) (simp_all add: finite64_def)
qed

lemma affine_origin:
  assumes "is_zero lo" "finite64 hi"
  shows "feq (lo + (hi - lo)) hi"
  using assms
  by (cases hi)
     (auto simp: is_zero_def minus_float64_def plus_float64_def fadd_def feq_def finite64_def
        is_float64_def)

lemma finite64_of_int: "\<bar>n\<bar> \<le> 2 ^ 53 \<Longrightarrow> finite64 (Fin (of_int n))"
  using rnd_of_int [of n] by (simp add: finite64_def is_float64_def)

subsection \<open>Error bounds of rounding\<close>

lemma rnd_pos_grid:
  assumes "0 < q" "rnd q = Fin r"
  shows "r = grid (ulp_exp q) q" "r < pow2 1024"
  using assms by (auto simp: rnd_def round_pos_grid split: if_splits)

lemma rnd_pos_finite:
  assumes "0 < q" "is_finite (rnd q)"
  shows "rnd q = Fin (grid (ulp_exp q) q)"
  using assms by (auto simp: rnd_def round_pos_grid split: if_splits)

lemma float64_grid:
  assumes "is_float64 (Fin q)" "0 < q"
  shows "\<exists>m. q = of_int m * pow2 (ulp_exp q)"
proof -
  have "rnd q = Fin q" using assms(1) by (simp add: is_float64_def)
  from rnd_pos_grid(1) [OF assms(2) this] grid_int [OF assms(2)] show ?thesis by metis
qed

lemma grid_upper:
  assumes "0 < q"
  shows "grid e q \<le> q + pow2 e / 2"
proof -
  have "of_int (rhe (q / pow2 e)) * pow2 e \<le> (q / pow2 e + 1 / 2) * pow2 e"
    using rhe_upper [of "q / pow2 e"] by (intro mult_right_mono) simp_all
  then show ?thesis by (simp add: grid_def algebra_simps)
qed

lemma ulp_exp_cases:
  "ulp_exp q = - 1074 \<or> ulp_exp q = ilog2 q - 52"
  by (auto simp: ulp_exp_def)

lemma grid_multiple_upper:
  assumes "0 < q" "q = of_int n * pow2 (- 1074)"
  shows "grid (ulp_exp q) q \<le> q * (1 + pow2 (- 53))"
proof (cases "ulp_exp q = - 1074")
  case True
  have "grid (- 1074) (of_int n * pow2 (- 1074)) = of_int n * pow2 (- 1074)"
    by (rule grid_point) simp
  then have "grid (ulp_exp q) q = q" unfolding True using assms(2) by simp
  moreover have "q \<le> q * (1 + pow2 (- 53))" using assms(1) by (simp add: algebra_simps)
  ultimately show ?thesis by simp
next
  case False
  then have e: "ulp_exp q = ilog2 q - 52" using ulp_exp_cases [of q] by simp
  have "pow2 (ulp_exp q) = pow2 (ilog2 q) * pow2 (- 52)"
    unfolding e pow2_add [symmetric] by simp
  also have "\<dots> \<le> q * pow2 (- 52)"
    using ilog2_bounds [OF assms(1)] by (intro mult_right_mono) simp_all
  finally have "pow2 (ulp_exp q) / 2 \<le> q * pow2 (- 52) / 2" by simp
  also have "\<dots> = q * pow2 (- 53)" by (simp add: pow2_def)
  finally show ?thesis using grid_upper [OF assms(1), of "ulp_exp q"] by (simp add: algebra_simps)
qed

lemma ilog2_quarter:
  assumes "0 < q"
  shows "ilog2 (q / 4) = ilog2 q - 2"
proof (rule ilog2_unique)
  have p: "pow2 (ilog2 q - 2) = pow2 (ilog2 q) / 4" "pow2 (ilog2 q - 2 + 1) = pow2 (ilog2 q + 1) / 4"
    using pow2_add [of "ilog2 q" "- 2"] pow2_add [of "ilog2 q + 1" "- 2"]
    by (simp_all add: pow2_def)
  show "pow2 (ilog2 q - 2) \<le> q / 4" unfolding p using ilog2_bounds [OF assms] by simp
  show "q / 4 < pow2 (ilog2 q - 2 + 1)" unfolding p using ilog2_bounds [OF assms] by simp
qed

lemma grid_quarter_upper:
  assumes "is_float64 (Fin s)" "0 < s"
  shows "grid (ulp_exp (s / 4)) (s / 4) \<le> s / 4 + pow2 (- 1075)"
proof (cases "ulp_exp (s / 4) = - 1074")
  case True
  have "0 < s / 4" using assms(2) by simp
  from grid_upper [OF this, of "- 1074"] have "grid (- 1074) (s / 4) \<le> s / 4 + pow2 (- 1074) / 2" .
  moreover have "pow2 (- 1074) / 2 = pow2 (- 1075)"
    using pow2_add [of "- 1075" 1] by simp
  ultimately show ?thesis unfolding True by simp
next
  case False
  then have e4: "ulp_exp (s / 4) = ilog2 s - 54" and big: "- 1074 < ilog2 s - 54"
    using ilog2_quarter [OF assms(2)] by (auto simp: ulp_exp_def)
  then have es: "ulp_exp s = ilog2 s - 52" by (simp add: ulp_exp_def)
  from float64_grid [OF assms] obtain m where m: "s = of_int m * pow2 (ulp_exp s)" by blast
  have "pow2 (ulp_exp s) / 4 = pow2 (ulp_exp (s / 4))"
    unfolding es e4 using pow2_add [of "ilog2 s - 52" "- 2"] by (simp add: pow2_def)
  then have eq: "s / 4 = of_int m * pow2 (ilog2 s - 54)"
    unfolding e4 using m by (metis times_divide_eq_right)
  have "grid (ilog2 s - 54) (of_int m * pow2 (ilog2 s - 54)) = of_int m * pow2 (ilog2 s - 54)"
    by (rule grid_point) simp
  then have g: "grid (ilog2 s - 54) (s / 4) = s / 4" unfolding eq [symmetric] .
  have "s / 4 \<le> s / 4 + pow2 (- 1075)" using pow2_nonneg(1) [of "- 1075"] by linarith
  then show ?thesis unfolding e4 g .
qed

lemma rnd_double:
  assumes "is_float64 (Fin x)" "0 < x" "2 * x < pow2 1024"
  shows "rnd (2 * x) = Fin (2 * x)"
proof -
  from float64_grid [OF assms(1,2)] obtain m where m: "x = of_int m * pow2 (ulp_exp x)" by blast
  have x2: "2 * x = of_int m * pow2 (ulp_exp x + 1)"
    unfolding pow2_Suc using m by simp
  have "ilog2 (2 * x) = ilog2 x + 1"
  proof (rule ilog2_unique)
    show "pow2 (ilog2 x + 1) \<le> 2 * x"
      unfolding pow2_Suc using ilog2_bounds [OF assms(2)] by simp
    show "2 * x < pow2 (ilog2 x + 1 + 1)"
      unfolding pow2_Suc using ilog2_bounds [OF assms(2)] by (simp add: pow2_Suc)
  qed
  then have "ulp_exp (2 * x) \<le> ulp_exp x + 1" by (simp add: ulp_exp_def max_def)
  from grid_point [OF this, of m] have "grid (ulp_exp (2 * x)) (2 * x) = 2 * x"
    unfolding x2 [symmetric] .
  then show ?thesis using assms(2,3) by (simp add: rnd_def round_pos_grid)
qed

lemma multiple_le:
  assumes "a = of_int n * pow2 (- 1074)" "b = of_int m * pow2 (- 1074)" "a < b + pow2 (- 1074)"
  shows "a \<le> b"
proof -
  have "of_int n * pow2 (- 1074) < (of_int m + 1) * pow2 (- 1074)"
    using assms by (simp add: algebra_simps)
  then have "(of_int n :: rat) < of_int m + 1" by (simp add: mult_less_cancel_right)
  then have "(of_int n :: rat) < of_int (m + 1)" by simp
  then have "n < m + 1" by (simp only: of_int_less_iff)
  then have "n \<le> m" by simp
  then have "(of_int n :: rat) \<le> of_int m" by (simp only: of_int_le_iff)
  then show ?thesis unfolding assms(1,2) by (intro mult_right_mono) simp_all
qed


subsection \<open>The default ticks in \<open>float64\<close>\<close>

lemma fadd_le_valof:
  assumes "is_finite a" "is_finite b" "finite64 c" "valof a + valof b \<le> valof c"
  shows "a + b \<le> c"
proof -
  have "rnd (valof a + valof b) \<le> rnd (valof c)" using assms(4) by (rule rnd_mono)
  moreover have "rnd (valof c) = c \<or> (c = NegZero \<and> rnd (valof c) = Fin 0)"
    using assms(3) by (cases c) (auto simp: finite64_def is_float64_def)
  ultimately have "rnd (valof a + valof b) \<le> c" by auto
  then show ?thesis using assms(1,2)
    by (cases a; cases b) (auto simp: plus_float64_def fadd_def)
qed

lemma fadd_zero_ge: "finite64 a \<Longrightarrow> a \<le> a + Fin 0"
  by (cases a) (auto simp: plus_float64_def fadd_def finite64_def is_float64_def)

lemma fsub_nonneg:
  assumes "finite64 a" "finite64 b" "a \<le> b"
  shows "Fin 0 \<le> b - a"
proof -
  have "a - a \<le> b - a" using assms(3,1) by (intro fsub_mono_left) (simp_all add: finite64_def)
  moreover have "a - a = Fin 0" using assms(1) by (intro fsub_self) (simp add: finite64_def)
  ultimately show ?thesis by simp
qed

lemma quarter_le_half:
  assumes "Fin 0 \<le> d" "is_finite d"
  shows "d / Fin 4 \<le> d / Fin 2"
proof (cases d)
  case (Fin x)
  then have x: "0 \<le> x" using assms(1) by simp
  then have "x / 4 \<le> x / 2" by simp
  from rnd_mono [OF this] show ?thesis using Fin
    by (auto simp: divide_float64_def fdiv_def is_zero_def signed_zero_def)
qed (use assms in \<open>auto simp: divide_float64_def fdiv_def is_zero_def signed_zero_def\<close>)

lemma fmul_three:
  assumes "is_float64 (Fin x)" "0 < x" "is_finite (Fin 3 * Fin x)"
  shows "\<exists>s. Fin 3 * Fin x = Fin s \<and> 2 * x \<le> s \<and> s \<le> 3 * x * (1 + pow2 (- 53)) \<and>
             is_float64 (Fin s)"
proof -
  have m3: "Fin 3 * Fin x = rnd (3 * x)"
    using assms(2) by (simp add: times_float64_def fmul_def is_zero_def)
  have p3: "0 < 3 * x" using assms(2) by simp
  define s where "s = grid (ulp_exp (3 * x)) (3 * x)"
  have rs: "rnd (3 * x) = Fin s"
    unfolding s_def using assms(3) unfolding m3 by (rule rnd_pos_finite [OF p3])
  obtain n where n: "x = of_int n * pow2 (- 1074)"
    using is_float64_multiple [OF assms(1)] by blast
  then have "3 * x = of_int (3 * n) * pow2 (- 1074)" by simp
  from grid_multiple_upper [OF p3 this] have up: "s \<le> 3 * x * (1 + pow2 (- 53))"
    unfolding s_def .
  have small: "2 * x < pow2 1024"
  proof (rule ccontr)
    assume "\<not> 2 * x < pow2 1024"
    then have "pow2 1024 \<le> 3 * x" using assms(2) by linarith
    then have "rnd (3 * x) = PInf" by (rule rnd_overflowI)
    then show False using rs by simp
  qed
  have "rnd (2 * x) \<le> rnd (3 * x)" using assms(2) by (intro rnd_mono) simp
  then have lo: "2 * x \<le> s"
    unfolding rs rnd_double [OF assms(1,2) small] by simp
  have "is_float64 (Fin s)" using is_float64_rnd [of "3 * x"] unfolding rs .
  then show ?thesis using m3 rs lo up by auto
qed

lemma half_le_three_quarters:
  assumes "Fin 0 \<le> d" "is_float64 d" "is_finite (Fin 3 * d)"
  shows "d / Fin 2 \<le> Fin 3 * d / Fin 4"
proof (cases d)
  case (Fin x)
  show ?thesis
  proof (cases "x = 0")
    case True
    then show ?thesis using Fin
      by (simp add: divide_float64_def times_float64_def fdiv_def fmul_def is_zero_def
            signed_zero_def)
  next
    case False
    then have x: "0 < x" using assms(1) Fin by simp
    from fmul_three [OF _ x] assms(2,3) Fin obtain s where
      s: "Fin 3 * Fin x = Fin s" "2 * x \<le> s" by auto
    have "x / 2 \<le> s / 4" using s(2) by simp
    from rnd_mono [OF this] show ?thesis unfolding Fin s(1) using x s(2)
      by (auto simp: divide_float64_def fdiv_def is_zero_def signed_zero_def)
  qed
next
  case NegZero
  then show ?thesis
    by (simp add: divide_float64_def times_float64_def fdiv_def fmul_def is_zero_def
          signed_zero_def)
qed (use assms in \<open>auto simp: times_float64_def fmul_def is_zero_def signed_inf_def\<close>)


lemma finite64_multiple:
  assumes "finite64 a"
  shows "\<exists>n. valof a = of_int n * pow2 (- 1074)"
proof (cases a)
  case (Fin q)
  then show ?thesis using assms is_float64_multiple [of q] by (simp add: finite64_def)
next
  case NegZero
  then show ?thesis by (intro exI [of _ 0]) simp
qed (use assms in \<open>simp_all add: finite64_def\<close>)

lemma fle_valof: "finite64 a \<Longrightarrow> finite64 b \<Longrightarrow> a \<le> b \<longleftrightarrow> valof a \<le> valof b"
  by (cases a; cases b) (auto simp: finite64_def)

lemma fsub_zero:
  assumes "finite64 a" "finite64 b" "valof a = valof b"
  shows "is_zero (b - a)"
  using assms by (cases a; cases b) (auto simp: finite64_def minus_float64_def fadd_def is_zero_def)

lemma three_quarters_zero:
  assumes "is_zero d"
  shows "is_finite (Fin 3 * d / Fin 4)" "valof (Fin 3 * d / Fin 4) = 0"
  using assms
  by (auto simp: is_zero_def times_float64_def divide_float64_def fmul_def fdiv_def signed_zero_def)

lemma rounding_slack: "3 * (1 + pow2 (- 53)) * (1 + pow2 (- 53)) \<le> (4 :: rat)"
  by (simp add: pow2_def)

lemma last_tick_le:
  assumes "finite64 mn" "finite64 mx" "mn \<le> mx" "is_finite (Fin 3 * (mx - mn))"
  shows "mn + Fin 3 * (mx - mn) / Fin 4 \<le> mx"
proof -
  define D where "D = valof mx - valof mn"
  have D0: "0 \<le> D" using assms(1-3) by (simp add: D_def fle_valof)
  have fin: "is_finite mn" using assms(1) by (simp add: finite64_def)
  show ?thesis
  proof (cases "D = 0")
    case True
    then have "is_zero (mx - mn)" using assms(1,2) by (intro fsub_zero) (simp_all add: D_def)
    from three_quarters_zero [OF this] True show ?thesis
      using fin assms(2) by (intro fadd_le_valof) (simp_all add: D_def)
  next
    case False
    then have Dpos: "0 < D" using D0 by simp
    then have lt: "mn < mx"
      using assms(1,2) by (cases mn; cases mx) (auto simp: D_def finite64_def)
    have sub: "mx - mn = rnd D"
      using assms(1,2) Dpos
      by (cases mn; cases mx) (auto simp: D_def finite64_def minus_float64_def fadd_def)
    have "is_finite (mx - mn)"
      using assms(4) by (cases "mx - mn") (auto simp: times_float64_def fmul_def is_zero_def signed_inf_def)
    with fsub_pos_finite64 [OF assms(1,2) lt] obtain x where x: "mx - mn = Fin x" "0 < x"
      by auto
    have fx: "is_float64 (Fin x)" using is_float64_fsub [of mx mn] unfolding x .
    obtain n m where "valof mn = of_int n * pow2 (- 1074)" "valof mx = of_int m * pow2 (- 1074)"
      using finite64_multiple assms(1,2) by blast
    then have Dm: "D = of_int (m - n) * pow2 (- 1074)" by (simp add: D_def algebra_simps)
    have "x = grid (ulp_exp D) D" using rnd_pos_grid(1) [OF Dpos] sub x by simp
    then have xD: "x \<le> D * (1 + pow2 (- 53))" using grid_multiple_upper [OF Dpos Dm] by simp
    from fmul_three [OF fx x(2)] assms(4) x obtain s where
      s: "Fin 3 * Fin x = Fin s" "2 * x \<le> s" "s \<le> 3 * x * (1 + pow2 (- 53))" "is_float64 (Fin s)"
      by auto
    have spos: "0 < s" using s(2) x(2) by linarith
    have "3 * x * (1 + pow2 (- 53)) \<le> 3 * (D * (1 + pow2 (- 53))) * (1 + pow2 (- 53))"
      using xD by (intro mult_right_mono mult_left_mono) simp_all
    also have "\<dots> = D * (3 * (1 + pow2 (- 53)) * (1 + pow2 (- 53)))" by (simp add: algebra_simps)
    also have "\<dots> \<le> D * 4" using D0 rounding_slack by (intro mult_left_mono) simp_all
    finally have s4: "s / 4 \<le> D" using s(3) by simp
    have q: "Fin s / Fin 4 = rnd (s / 4)"
      using spos by (simp add: divide_float64_def fdiv_def is_zero_def)
    have "rnd (s / 4) \<le> rnd s" using spos by (intro rnd_mono) simp
    moreover have "rnd s = Fin s" using s(4) by (simp add: is_float64_def)
    moreover have "Fin 0 \<le> rnd (s / 4)" using spos by (intro rnd_sign) simp
    ultimately have "is_finite (rnd (s / 4))" by (cases "rnd (s / 4)") auto
    moreover have s4pos: "0 < s / 4" using spos by simp
    ultimately obtain r where r: "rnd (s / 4) = Fin r" using rnd_pos_finite by blast
    have "r = grid (ulp_exp (s / 4)) (s / 4)" using rnd_pos_grid(1) [OF s4pos r] .
    then have "r \<le> s / 4 + pow2 (- 1075)" using grid_quarter_upper [OF s(4) spos] by simp
    moreover have "pow2 (- 1075) < pow2 (- 1074)" by (intro pow2_strict_mono) simp
    ultimately have rD: "r < D + pow2 (- 1074)" using s4 by linarith
    have "is_float64 (Fin r)" using is_float64_rnd [of "s / 4"] unfolding r .
    then obtain k where k: "r = of_int k * pow2 (- 1074)" using is_float64_multiple by blast
    have "r \<le> D" using k Dm rD by (rule multiple_le)
    then have "valof mn + valof (Fin 3 * (mx - mn) / Fin 4) \<le> valof mx"
      unfolding x s(1) q r by (simp add: D_def)
    moreover have "is_finite (Fin 3 * (mx - mn) / Fin 4)" unfolding x s(1) q r by simp
    ultimately show ?thesis using fin assms(2) by (intro fadd_le_valof)
  qed
qed

subsection \<open>The fractions of a difference\<close>

text \<open>Dividing by 4 or by 2 is multiplying by \<open>1/4\<close> or by \<open>1/2\<close>, and three times a
  \<open>float64\<close>, divided by 4, is \<open>3/4\<close> of it where the product does not overflow: the
  product may round, but the division then does not round again differently.\<close>

lemma fdiv_quarter: "d / Fin 4 = Fin (1 / 4) * (d :: float64)"
  by (cases d)
     (simp_all add: divide_float64_def times_float64_def fdiv_def fmul_def is_zero_def
        signed_zero_def signed_inf_def)

lemma fdiv_half: "d / Fin 2 = Fin (1 / 2) * (d :: float64)"
  by (cases d)
     (simp_all add: divide_float64_def times_float64_def fdiv_def fmul_def is_zero_def
        signed_zero_def signed_inf_def)

lemma rhe_half_half: "rhe (of_int (rhe (of_int n / 2)) / 2) = rhe (of_int n / 4)"
proof -
  define j where "j = n div 4"
  define r where "r = n mod 4"
  have n: "n = 4 * j + r" and r: "0 \<le> r" "r < 4" by (simp_all add: j_def r_def)
  from r consider "r = 0" | "r = 1" | "r = 2" | "r = 3" by linarith
  then show ?thesis
  proof cases
    case 1
    have a: "(of_int n :: rat) / 2 = of_int (2 * j)" using n 1 by simp
    have b: "(of_int (2 * j) :: rat) / 2 = of_int j" by simp
    have c: "(of_int n :: rat) / 4 = of_int j" using n 1 by simp
    show ?thesis unfolding a rhe_of_int b c ..
  next
    case 2
    have a: "(of_int n :: rat) / 2 = of_int (2 * j) + 1 / 2" using n 2 by simp
    have a': "rhe (of_int n / 2) = 2 * j" by (rule rhe_tie_down [OF a]) simp
    have b: "(of_int (2 * j) :: rat) / 2 = of_int j" by simp
    have b': "rhe (of_int (2 * j) / 2) = j" unfolding b by (rule rhe_of_int)
    have "(of_int n :: rat) / 4 - of_int j = 1 / 4" using n 2 by (simp add: field_simps)
    then have c: "rhe (of_int n / 4) = j" by (intro rhe_eqI) simp
    show ?thesis unfolding a' b' c ..
  next
    case 3
    have a: "(of_int n :: rat) / 2 = of_int (2 * j + 1)" using n 3 by simp
    have c: "(of_int n :: rat) / 4 = of_int (2 * j + 1) / 2" using n 3 by simp
    show ?thesis unfolding a rhe_of_int c ..
  next
    case 4
    have a: "(of_int n :: rat) / 2 = of_int (2 * j + 2) - 1 / 2" using n 4 by simp
    have a': "rhe (of_int n / 2) = 2 * j + 2" by (rule rhe_tie_up [OF a]) simp
    have b: "(of_int (2 * j + 2) :: rat) / 2 = of_int (j + 1)" by simp
    have b': "rhe (of_int (2 * j + 2) / 2) = j + 1" unfolding b by (rule rhe_of_int)
    have "(of_int n :: rat) / 4 - of_int (j + 1) = - (1 / 4)" using n 4 by (simp add: field_simps)
    then have c: "rhe (of_int n / 4) = j + 1" by (intro rhe_eqI) simp
    show ?thesis unfolding a' b' c ..
  qed
qed

lemma fneg_fneg [simp]: "fneg (fneg a) = a"
  by (cases a) simp_all

lemma rnd_minus: "q \<noteq> 0 \<Longrightarrow> rnd (- q) = fneg (rnd q)"
  by (simp add: rnd_def)

lemma ilog2_pow2 [simp]: "ilog2 (pow2 k) = k"
  by (rule ilog2_unique) (simp_all add: pow2_strict_mono)

lemma pow2_quarter: "pow2 (e - 2) = pow2 e / 4"
  using pow2_add [of e "- 2"] by (simp add: pow2_def)

lemma round_quarter:
  assumes q0: "0 < q" and qn: "q = of_int n * pow2 (- 1074)" and r: "rnd q = Fin s"
  shows "0 < s \<and> rnd (s / 4) = rnd (q / 4)"
proof -
  have s: "s = grid (ulp_exp q) q" and sov: "s < pow2 1024"
    using rnd_pos_grid [OF q0 r] by simp_all
  have n0: "0 < n" using q0 qn by (simp add: zero_less_mult_iff)
  then have "1 * pow2 (- 1074) \<le> of_int n * pow2 (- 1074)"
    by (intro mult_right_mono) simp_all
  then have qmin: "pow2 (- 1074) \<le> q" using qn by simp
  have il: "- 1074 \<le> ilog2 q"
    using ilog2_mono [of "pow2 (- 1074)" q] qmin by simp
  have ue: "ulp_exp q \<le> ilog2 q" using il by (simp add: ulp_exp_def)
  have qb: "pow2 (ilog2 q) \<le> q" "q < pow2 (ilog2 q + 1)" using ilog2_bounds [OF q0] by simp_all
  have sge: "pow2 (ilog2 q) \<le> s"
    unfolding s using grid_ge_point [of "ulp_exp q" "ilog2 q" 1 q] ue qb by simp
  have s0: "0 < s" using sge pow2_pos [of "ilog2 q"] by linarith
  have q4: "0 < q / 4" and s4: "0 < s / 4" using q0 s0 by simp_all
  have ueq4: "ulp_exp (q / 4) = max (ilog2 q - 54) (- 1074)"
    by (simp add: ulp_exp_def ilog2_quarter [OF q0])
  have ues4: "ulp_exp (s / 4) = max (ilog2 s - 54) (- 1074)"
    by (simp add: ulp_exp_def ilog2_quarter [OF s0])
  have key: "grid (ulp_exp (s / 4)) (s / 4) = grid (ulp_exp (q / 4)) (q / 4)"
  proof -
    consider (A) "ilog2 q \<le> - 1022" | (B) "ilog2 q = - 1021" | (C) "- 1020 \<le> ilog2 q"
      by linarith
    then show ?thesis
    proof cases
      case A
      then have "ulp_exp q = - 1074" by (simp add: ulp_exp_def)
      then have "s = q" unfolding s qn using grid_point [of "- 1074" "- 1074" n] by simp
      then show ?thesis by simp
    next
      case B
      then have e: "ulp_exp q = - 1073" by (simp add: ulp_exp_def)
      have h: "q / pow2 (- 1073) = of_int n / 2" unfolding qn by (simp add: pow2_def)
      have sm: "s = of_int (rhe (of_int n / 2)) * pow2 (- 1073)"
        unfolding s e grid_def h ..
      have e4: "ulp_exp (q / 4) = - 1074" unfolding ueq4 using B by simp
      have h4: "q / 4 / pow2 (- 1074) = of_int n / 4" unfolding qn by simp
      have "q \<le> of_int 1 * pow2 (- 1020)" using qb(2) B by simp
      then have "s \<le> of_int 1 * pow2 (- 1020)"
        unfolding s e by (intro grid_le_point) simp_all
      moreover have "pow2 (- 1020) < pow2 (- 1019)" by (rule pow2_strict_mono) simp
      ultimately have "s < pow2 (- 1019)" by simp
      then have "ilog2 s < - 1019" using s0 by (intro ilog2_less)
      then have es4: "ulp_exp (s / 4) = - 1074" unfolding ues4 by simp
      have hs4: "s / 4 / pow2 (- 1074) = of_int (rhe (of_int n / 2)) / 2"
        unfolding sm by (simp add: pow2_def)
      show ?thesis unfolding e4 es4 grid_def h4 hs4 rhe_half_half ..
    next
      case C
      then have e: "ulp_exp q = ilog2 q - 52" by (simp add: ulp_exp_def)
      have e4: "ulp_exp (q / 4) = ulp_exp q - 2" unfolding ueq4 e using C by simp
      have "q / 4 / pow2 (ulp_exp q - 2) = q / pow2 (ulp_exp q)"
        by (simp add: pow2_quarter)
      then have g4: "grid (ulp_exp (q / 4)) (q / 4) = s / 4"
        unfolding e4 s grid_def by (simp add: pow2_quarter)
      have fs: "is_float64 (Fin s)" using is_float64_rnd [of q] r by simp
      obtain m where m: "s = of_int m * pow2 (ulp_exp s)" using float64_grid [OF fs s0] by blast
      have "ilog2 q \<le> ilog2 s" using ilog2_mono [of "pow2 (ilog2 q)" s] sge by simp
      then have es: "ulp_exp s = ilog2 s - 52" and esl: "- 1072 \<le> ulp_exp s"
        using C by (simp_all add: ulp_exp_def)
      have sb: "s < pow2 (ilog2 s + 1)" using ilog2_bounds [OF s0] by simp
      have "s / 4 = of_int m * pow2 (ulp_exp s - 2)" using m by (simp add: pow2_quarter)
      moreover have "- 1074 \<le> ulp_exp s - 2" using esl by simp
      moreover have "\<bar>s / 4\<bar> < pow2 (ulp_exp s - 2 + 53)"
      proof -
        have "ulp_exp s - 2 + 53 = ilog2 s + 1 - 2" using es by simp
        then have "pow2 (ulp_exp s - 2 + 53) = pow2 (ilog2 s + 1 - 2)" by (rule arg_cong)
        then have "pow2 (ulp_exp s - 2 + 53) = pow2 (ilog2 s + 1) / 4"
          unfolding pow2_quarter .
        then show ?thesis using sb s0 by simp
      qed
      moreover have "\<bar>s / 4\<bar> < pow2 1024" using sov s0 by simp
      ultimately have "rnd (s / 4) = Fin (s / 4)" by (rule rnd_exact)
      then have "s / 4 = grid (ulp_exp (s / 4)) (s / 4)" using rnd_pos_grid(1) [OF s4] by simp
      then show ?thesis using g4 by simp
    qed
  qed
  show ?thesis using q4 s4 s0 key by (simp add: rnd_def round_pos_grid)
qed

lemma three_quarters_pos:
  assumes f: "is_float64 (Fin x)" and x: "0 < x" and fin: "is_finite (rnd (3 * x))"
  shows "\<exists>s. rnd (3 * x) = Fin s \<and> 0 < s \<and> rnd (s / 4) = rnd (3 * x / 4)"
proof -
  obtain n where n: "x = of_int n * pow2 (- 1074)" using is_float64_multiple [OF f] by blast
  have q0: "0 < 3 * x" using x by simp
  have qn: "3 * x = of_int (3 * n) * pow2 (- 1074)" using n by simp
  obtain s where s: "rnd (3 * x) = Fin s" using rnd_pos_finite [OF q0 fin] by blast
  show ?thesis using round_quarter [OF q0 qn s] s by blast
qed

lemma three_quarters:
  assumes f: "is_float64 d" and fin: "is_finite (Fin 3 * d)"
  shows "Fin 3 * d / Fin 4 = Fin (3 / 4) * d"
proof (cases d)
  case (Fin x)
  consider "x = 0" | "0 < x" | "x < 0" by linarith
  then show ?thesis
  proof cases
    case 1
    then show ?thesis unfolding Fin
      by (simp add: times_float64_def divide_float64_def fmul_def fdiv_def is_zero_def
            signed_zero_def)
  next
    case 2
    have m: "Fin 3 * Fin x = rnd (3 * x)" "Fin (3 / 4) * Fin x = rnd (3 * x / 4)"
      using 2 by (simp_all add: times_float64_def fmul_def is_zero_def)
    obtain s where s: "rnd (3 * x) = Fin s" "0 < s" "rnd (s / 4) = rnd (3 * x / 4)"
      using three_quarters_pos [of x] f fin 2 unfolding Fin m by blast
    have "Fin s / Fin 4 = rnd (s / 4)"
      using s(2) by (simp add: divide_float64_def fdiv_def is_zero_def)
    then show ?thesis unfolding Fin m s(1) using s(3) by simp
  next
    case 3
    have m: "Fin 3 * Fin x = rnd (3 * x)" "Fin (3 / 4) * Fin x = rnd (3 * x / 4)"
      using 3 by (simp_all add: times_float64_def fmul_def is_zero_def)
    have "fneg (round_pos (- x)) = Fin x"
      using f 3 unfolding Fin by (simp add: is_float64_def rnd_def)
    then have "fneg (fneg (round_pos (- x))) = fneg (Fin x)" by (rule arg_cong)
    then have fx: "is_float64 (Fin (- x))"
      using 3 by (simp add: is_float64_def rnd_def)
    have n3: "rnd (3 * x) = fneg (rnd (3 * (- x)))"
      using rnd_minus [of "3 * (- x)"] 3 by simp
    have "is_finite (rnd (3 * (- x)))" using fin unfolding Fin m n3 by simp
    then obtain s where s: "rnd (3 * (- x)) = Fin s" "0 < s"
        "rnd (s / 4) = rnd (3 * (- x) / 4)"
      using three_quarters_pos [of "- x"] fx 3 by auto
    have l: "Fin 3 * Fin x = Fin (- s)" unfolding m n3 s(1) using s(2) by simp
    have "Fin (- s) / Fin 4 = rnd (- (s / 4))"
      using s(2) by (simp add: divide_float64_def fdiv_def is_zero_def)
    also have "\<dots> = fneg (rnd (s / 4))" using s(2) by (intro rnd_minus) simp
    also have "\<dots> = fneg (rnd (3 * (- x) / 4))" unfolding s(3) ..
    also have "\<dots> = rnd (- (3 * (- x) / 4))" using 3 by (intro rnd_minus [symmetric]) simp
    also have "\<dots> = rnd (3 * x / 4)" by simp
    finally show ?thesis unfolding Fin l m .
  qed
next
  case NegZero
  then show ?thesis
    by (simp add: times_float64_def divide_float64_def fmul_def fdiv_def is_zero_def
          signed_zero_def)
next
  case PInf
  then show ?thesis using fin
    by (simp add: times_float64_def fmul_def is_zero_def signed_inf_def)
next
  case NInf
  then show ?thesis using fin
    by (simp add: times_float64_def fmul_def is_zero_def signed_inf_def)
next
  case NaN
  then show ?thesis using fin by (simp add: times_float64_def fmul_def)
qed

lemma zero_fraction:
  assumes "finite64 mn" "is_finite d"
  shows "feq mn (mn + Fin 0 * d)"
proof -
  have z: "Fin 0 * d = Fin 0 \<or> Fin 0 * d = NegZero"
    using assms(2)
    by (cases d) (simp_all add: times_float64_def fmul_def is_zero_def signed_zero_def)
  show ?thesis
    using assms(1) z
    by (cases mn)
       (auto simp: finite64_def is_float64_def plus_float64_def fadd_def feq_def)
qed

subsection \<open>Evaluations in \<open>float64\<close>\<close>

lemma fl_1: "(Fin 1 :: float64) / Fin 64 = Fin (1 / 64)"
  apply (simp add: divide_float64_def fdiv_def is_zero_def signed_zero_def signed_inf_def)
  apply (rule rnd_evalI [where k = "-6" and e = "-58" and m = 4503599627370496])
  apply (simp_all add: pow2_def)
  apply (rule rhe_eqI)
  apply simp_all
  done

lemma fl_2: "(Fin 1 :: float64) / Fin 8 = Fin (1 / 8)"
  apply (simp add: divide_float64_def fdiv_def is_zero_def signed_zero_def signed_inf_def)
  apply (rule rnd_evalI [where k = "-3" and e = "-55" and m = 4503599627370496])
  apply (simp_all add: pow2_def)
  apply (rule rhe_eqI)
  apply simp_all
  done

lemma fl_3: "(Fin 1 :: float64) / Fin 10 = Fin (3602879701896397 / 36028797018963968)"
  apply (simp add: divide_float64_def fdiv_def is_zero_def signed_zero_def signed_inf_def)
  apply (rule rnd_evalI [where k = "-4" and e = "-56" and m = 7205759403792794])
  apply (simp_all add: pow2_def)
  apply (rule rhe_eqI)
  apply simp_all
  done

lemma fl_4: "(Fin 12 :: float64) / Fin 72 = Fin (6004799503160661 / 36028797018963968)"
  apply (simp add: divide_float64_def fdiv_def is_zero_def signed_zero_def signed_inf_def)
  apply (rule rnd_evalI [where k = "-3" and e = "-55" and m = 6004799503160661])
  apply (simp_all add: pow2_def)
  apply (rule rhe_eqI)
  apply simp_all
  done

lemma fl_5: "(Fin 0 :: float64) + Fin (6004799503160661 / 36028797018963968) = Fin (6004799503160661 / 36028797018963968)"
  apply (simp add: plus_float64_def fadd_def is_zero_def signed_zero_def signed_inf_def)
  apply (rule rnd_evalI [where k = "-3" and e = "-55" and m = 6004799503160661])
  apply (simp_all add: pow2_def)
  apply (rule rhe_eqI)
  apply simp_all
  done

lemma fl_6: "(Fin (1 / 64) :: float64) / Fin 2 = Fin (1 / 128)"
  apply (simp add: divide_float64_def fdiv_def is_zero_def signed_zero_def signed_inf_def)
  apply (rule rnd_evalI [where k = "-7" and e = "-59" and m = 4503599627370496])
  apply (simp_all add: pow2_def)
  apply (rule rhe_eqI)
  apply simp_all
  done

lemma fl_7: "(Fin (6004799503160661 / 36028797018963968) :: float64) + Fin (1 / 128) = Fin (6286274479871317 / 36028797018963968)"
  apply (simp add: plus_float64_def fadd_def is_zero_def signed_zero_def signed_inf_def)
  apply (rule rnd_evalI [where k = "-3" and e = "-55" and m = 6286274479871317])
  apply (simp_all add: pow2_def)
  apply (rule rhe_eqI)
  apply simp_all
  done

lemma fl_8: "(Fin (6286274479871317 / 36028797018963968) :: float64) + Fin (1 / 8) = Fin (2697468526810453 / 9007199254740992)"
  apply (simp add: plus_float64_def fadd_def is_zero_def signed_zero_def signed_inf_def)
  apply (rule rnd_evalI [where k = "-2" and e = "-54" and m = 5394937053620906])
  apply (simp_all add: pow2_def)
  apply (rule rhe_tie_down)
  apply simp_all
  done

lemma fl_9: "(Fin 9 :: float64) / Fin 72 = Fin (1 / 8)"
  apply (simp add: divide_float64_def fdiv_def is_zero_def signed_zero_def signed_inf_def)
  apply (rule rnd_evalI [where k = "-3" and e = "-55" and m = 4503599627370496])
  apply (simp_all add: pow2_def)
  apply (rule rhe_eqI)
  apply simp_all
  done

lemma fl_10: "(Fin 0 :: float64) + Fin (1 / 8) = Fin (1 / 8)"
  apply (simp add: plus_float64_def fadd_def is_zero_def signed_zero_def signed_inf_def)
  apply (rule rnd_evalI [where k = "-3" and e = "-55" and m = 4503599627370496])
  apply (simp_all add: pow2_def)
  apply (rule rhe_eqI)
  apply simp_all
  done

lemma fl_11: "(Fin (1 / 8) :: float64) + Fin 0 = Fin (1 / 8)"
  apply (simp add: plus_float64_def fadd_def is_zero_def signed_zero_def signed_inf_def)
  apply (rule rnd_evalI [where k = "-3" and e = "-55" and m = 4503599627370496])
  apply (simp_all add: pow2_def)
  apply (rule rhe_eqI)
  apply simp_all
  done

lemma fl_12: "(Fin (1 / 8) :: float64) + Fin (1 / 128) = Fin (17 / 128)"
  apply (simp add: plus_float64_def fadd_def is_zero_def signed_zero_def signed_inf_def)
  apply (rule rnd_evalI [where k = "-3" and e = "-55" and m = 4785074604081152])
  apply (simp_all add: pow2_def)
  apply (rule rhe_eqI)
  apply simp_all
  done

lemma fl_13: "(Fin (17 / 128) :: float64) + Fin (1 / 8) = Fin (33 / 128)"
  apply (simp add: plus_float64_def fadd_def is_zero_def signed_zero_def signed_inf_def)
  apply (rule rnd_evalI [where k = "-2" and e = "-54" and m = 4644337115725824])
  apply (simp_all add: pow2_def)
  apply (rule rhe_eqI)
  apply simp_all
  done

lemma fl_14: "(Fin (6004799503160661 / 36028797018963968) :: float64) + Fin 0 = Fin (6004799503160661 / 36028797018963968)"
  apply (simp add: plus_float64_def fadd_def is_zero_def signed_zero_def signed_inf_def)
  apply (rule rnd_evalI [where k = "-3" and e = "-55" and m = 6004799503160661])
  apply (simp_all add: pow2_def)
  apply (rule rhe_eqI)
  apply simp_all
  done

lemma fl_15: "(Fin (1 / 8) :: float64) * Fin 96 = Fin 12"
  apply (simp add: times_float64_def fmul_def is_zero_def signed_zero_def signed_inf_def)
  apply (rule rnd_evalI [where k = "3" and e = "-49" and m = 6755399441055744])
  apply (simp_all add: pow2_def)
  apply (rule rhe_eqI)
  apply simp_all
  done

lemma fl_16: "(Fin 0 :: float64) + Fin 12 = Fin 12"
  apply (simp add: plus_float64_def fadd_def is_zero_def signed_zero_def signed_inf_def)
  apply (rule rnd_evalI [where k = "3" and e = "-49" and m = 6755399441055744])
  apply (simp_all add: pow2_def)
  apply (rule rhe_eqI)
  apply simp_all
  done

lemma fl_17: "(Fin 3 :: float64) / Fin 72 = Fin (6004799503160661 / 144115188075855872)"
  apply (simp add: divide_float64_def fdiv_def is_zero_def signed_zero_def signed_inf_def)
  apply (rule rnd_evalI [where k = "-5" and e = "-57" and m = 6004799503160661])
  apply (simp_all add: pow2_def)
  apply (rule rhe_eqI)
  apply simp_all
  done

lemma fl_18: "(Fin (6004799503160661 / 144115188075855872) :: float64) * Fin 96 = Fin 4"
  apply (simp add: times_float64_def fmul_def is_zero_def signed_zero_def signed_inf_def)
  apply (rule rnd_evalI [where k = "1" and e = "-51" and m = 9007199254740992])
  apply (simp_all add: pow2_def)
  apply (rule rhe_tie_up)
  apply simp_all
  done

lemma fl_19: "(Fin 12 :: float64) + Fin 4 = Fin 16"
  apply (simp add: plus_float64_def fadd_def is_zero_def signed_zero_def signed_inf_def)
  apply (rule rnd_evalI [where k = "4" and e = "-48" and m = 4503599627370496])
  apply (simp_all add: pow2_def)
  apply (rule rhe_eqI)
  apply simp_all
  done

lemma fl_20: "(Fin (33 / 128) :: float64) - Fin (1 / 128) = Fin (1 / 4)"
  apply (simp add: minus_float64_def fadd_def is_zero_def signed_zero_def signed_inf_def)
  apply (rule rnd_evalI [where k = "-2" and e = "-54" and m = 4503599627370496])
  apply (simp_all add: pow2_def)
  apply (rule rhe_eqI)
  apply simp_all
  done

lemma fl_21: "(Fin (1 / 4) :: float64) - Fin (1 / 8) = Fin (1 / 8)"
  apply (simp add: minus_float64_def fadd_def is_zero_def signed_zero_def signed_inf_def)
  apply (rule rnd_evalI [where k = "-3" and e = "-55" and m = 4503599627370496])
  apply (simp_all add: pow2_def)
  apply (rule rhe_eqI)
  apply simp_all
  done

lemma fl_22: "(Fin (3602879701896397 / 36028797018963968) :: float64) + Fin (1 / 8) = Fin (8106479329266893 / 36028797018963968)"
  apply (simp add: plus_float64_def fadd_def is_zero_def signed_zero_def signed_inf_def)
  apply (rule rnd_evalI [where k = "-3" and e = "-55" and m = 8106479329266893])
  apply (simp_all add: pow2_def)
  apply (rule rhe_eqI)
  apply simp_all
  done

lemma fl_23: "(Fin 0 :: float64) + Fin (8106479329266893 / 36028797018963968) = Fin (8106479329266893 / 36028797018963968)"
  apply (simp add: plus_float64_def fadd_def is_zero_def signed_zero_def signed_inf_def)
  apply (rule rnd_evalI [where k = "-3" and e = "-55" and m = 8106479329266893])
  apply (simp_all add: pow2_def)
  apply (rule rhe_eqI)
  apply simp_all
  done

lemma fl_24: "(Fin (8106479329266893 / 36028797018963968) :: float64) + Fin (1 / 128) = Fin (8387954305977549 / 36028797018963968)"
  apply (simp add: plus_float64_def fadd_def is_zero_def signed_zero_def signed_inf_def)
  apply (rule rnd_evalI [where k = "-3" and e = "-55" and m = 8387954305977549])
  apply (simp_all add: pow2_def)
  apply (rule rhe_eqI)
  apply simp_all
  done

lemma fl_25: "(Fin (8387954305977549 / 36028797018963968) :: float64) + Fin (1 / 8) = Fin (3222888483337011 / 9007199254740992)"
  apply (simp add: plus_float64_def fadd_def is_zero_def signed_zero_def signed_inf_def)
  apply (rule rnd_evalI [where k = "-2" and e = "-54" and m = 6445776966674022])
  apply (simp_all add: pow2_def)
  apply (rule rhe_tie_down)
  apply simp_all
  done

lemma fl_26: "(Fin (3602879701896397 / 36028797018963968) :: float64) * Fin 96 = Fin (1351079888211149 / 140737488355328)"
  apply (simp add: times_float64_def fmul_def is_zero_def signed_zero_def signed_inf_def)
  apply (rule rnd_evalI [where k = "3" and e = "-49" and m = 5404319552844596])
  apply (simp_all add: pow2_def)
  apply (rule rhe_tie_up)
  apply simp_all
  done

lemma fl_27: "(Fin 12 :: float64) + Fin (1351079888211149 / 140737488355328) = Fin (3039929748475085 / 140737488355328)"
  apply (simp add: plus_float64_def fadd_def is_zero_def signed_zero_def signed_inf_def)
  apply (rule rnd_evalI [where k = "4" and e = "-48" and m = 6079859496950170])
  apply (simp_all add: pow2_def)
  apply (rule rhe_eqI)
  apply simp_all
  done

lemma fl_28: "(Fin (3222888483337011 / 9007199254740992) :: float64) - Fin (1 / 128) = Fin (3152519739159347 / 9007199254740992)"
  apply (simp add: minus_float64_def fadd_def is_zero_def signed_zero_def signed_inf_def)
  apply (rule rnd_evalI [where k = "-2" and e = "-54" and m = 6305039478318694])
  apply (simp_all add: pow2_def)
  apply (rule rhe_eqI)
  apply simp_all
  done

lemma fl_29: "(Fin (3152519739159347 / 9007199254740992) :: float64) - Fin (1 / 8) = Fin (2026619832316723 / 9007199254740992)"
  apply (simp add: minus_float64_def fadd_def is_zero_def signed_zero_def signed_inf_def)
  apply (rule rnd_evalI [where k = "-3" and e = "-55" and m = 8106479329266892])
  apply (simp_all add: pow2_def)
  apply (rule rhe_eqI)
  apply simp_all
  done

lemma fl_30: "(Fin (2026619832316723 / 9007199254740992) :: float64) * Fin 96 = Fin (6079859496950169 / 281474976710656)"
  apply (simp add: times_float64_def fmul_def is_zero_def signed_zero_def signed_inf_def)
  apply (rule rnd_evalI [where k = "4" and e = "-48" and m = 6079859496950169])
  apply (simp_all add: pow2_def)
  apply (rule rhe_eqI)
  apply simp_all
  done

lemma fl_31: "(Fin 0 :: float64) + Fin (6079859496950169 / 281474976710656) = Fin (6079859496950169 / 281474976710656)"
  apply (simp add: plus_float64_def fadd_def is_zero_def signed_zero_def signed_inf_def)
  apply (rule rnd_evalI [where k = "4" and e = "-48" and m = 6079859496950169])
  apply (simp_all add: pow2_def)
  apply (rule rhe_eqI)
  apply simp_all
  done

lemma fl_32: "(Fin 100 :: float64) - Fin 0 = Fin 100"
  apply (simp add: minus_float64_def fadd_def is_zero_def signed_zero_def signed_inf_def)
  apply (rule rnd_evalI [where k = "6" and e = "-46" and m = 7036874417766400])
  apply (simp_all add: pow2_def)
  apply (rule rhe_eqI)
  apply simp_all
  done

lemma fl_33: "(Fin 100 :: float64) / Fin 4 = Fin 25"
  apply (simp add: divide_float64_def fdiv_def is_zero_def signed_zero_def signed_inf_def)
  apply (rule rnd_evalI [where k = "4" and e = "-48" and m = 7036874417766400])
  apply (simp_all add: pow2_def)
  apply (rule rhe_eqI)
  apply simp_all
  done

lemma fl_34: "(Fin 0 :: float64) + Fin 25 = Fin 25"
  apply (simp add: plus_float64_def fadd_def is_zero_def signed_zero_def signed_inf_def)
  apply (rule rnd_evalI [where k = "4" and e = "-48" and m = 7036874417766400])
  apply (simp_all add: pow2_def)
  apply (rule rhe_eqI)
  apply simp_all
  done

lemma fl_35: "(Fin 100 :: float64) / Fin 2 = Fin 50"
  apply (simp add: divide_float64_def fdiv_def is_zero_def signed_zero_def signed_inf_def)
  apply (rule rnd_evalI [where k = "5" and e = "-47" and m = 7036874417766400])
  apply (simp_all add: pow2_def)
  apply (rule rhe_eqI)
  apply simp_all
  done

lemma fl_36: "(Fin 0 :: float64) + Fin 50 = Fin 50"
  apply (simp add: plus_float64_def fadd_def is_zero_def signed_zero_def signed_inf_def)
  apply (rule rnd_evalI [where k = "5" and e = "-47" and m = 7036874417766400])
  apply (simp_all add: pow2_def)
  apply (rule rhe_eqI)
  apply simp_all
  done

lemma fl_37: "(Fin 3 :: float64) * Fin 100 = Fin 300"
  apply (simp add: times_float64_def fmul_def is_zero_def signed_zero_def signed_inf_def)
  apply (rule rnd_evalI [where k = "8" and e = "-44" and m = 5277655813324800])
  apply (simp_all add: pow2_def)
  apply (rule rhe_eqI)
  apply simp_all
  done

lemma fl_38: "(Fin 300 :: float64) / Fin 4 = Fin 75"
  apply (simp add: divide_float64_def fdiv_def is_zero_def signed_zero_def signed_inf_def)
  apply (rule rnd_evalI [where k = "6" and e = "-46" and m = 5277655813324800])
  apply (simp_all add: pow2_def)
  apply (rule rhe_eqI)
  apply simp_all
  done

lemma fl_39: "(Fin 0 :: float64) + Fin 75 = Fin 75"
  apply (simp add: plus_float64_def fadd_def is_zero_def signed_zero_def signed_inf_def)
  apply (rule rnd_evalI [where k = "6" and e = "-46" and m = 5277655813324800])
  apply (simp_all add: pow2_def)
  apply (rule rhe_eqI)
  apply simp_all
  done

lemma fl_40: "rnd (11 / 10) = Fin (2476979795053773 / 2251799813685248)"
  apply (rule rnd_evalI [where k = "0" and e = "-52" and m = 4953959590107546])
  apply (simp_all add: pow2_def)
  apply (rule rhe_eqI)
  apply simp_all
  done

lemma fl_41: "rnd (63 / 10) = Fin (7093169413108531 / 1125899906842624)"
  apply (rule rnd_evalI [where k = "2" and e = "-50" and m = 7093169413108531])
  apply (simp_all add: pow2_def)
  apply (rule rhe_eqI)
  apply simp_all
  done

lemma fl_42: "(Fin 10 :: float64) - Fin 0 = Fin 10"
  apply (simp add: minus_float64_def fadd_def is_zero_def signed_zero_def signed_inf_def)
  apply (rule rnd_evalI [where k = "3" and e = "-49" and m = 5629499534213120])
  apply (simp_all add: pow2_def)
  apply (rule rhe_eqI)
  apply simp_all
  done

lemma fl_43: "(Fin 10 :: float64) / Fin 10 = Fin 1"
  apply (simp add: divide_float64_def fdiv_def is_zero_def signed_zero_def signed_inf_def)
  apply (rule rnd_evalI [where k = "0" and e = "-52" and m = 4503599627370496])
  apply (simp_all add: pow2_def)
  apply (rule rhe_eqI)
  apply simp_all
  done

lemma fl_44: "(Fin (7093169413108531 / 1125899906842624) :: float64) - Fin (2476979795053773 / 2251799813685248) = Fin (1463669878895411 / 281474976710656)"
  apply (simp add: minus_float64_def fadd_def is_zero_def signed_zero_def signed_inf_def)
  apply (rule rnd_evalI [where k = "2" and e = "-50" and m = 5854679515581644])
  apply (simp_all add: pow2_def)
  apply (rule rhe_tie_down)
  apply simp_all
  done

lemma fl_45: "(Fin 1 :: float64) * Fin (1463669878895411 / 281474976710656) = Fin (1463669878895411 / 281474976710656)"
  apply (simp add: times_float64_def fmul_def is_zero_def signed_zero_def signed_inf_def)
  apply (rule rnd_evalI [where k = "2" and e = "-50" and m = 5854679515581644])
  apply (simp_all add: pow2_def)
  apply (rule rhe_eqI)
  apply simp_all
  done

lemma fl_46: "(Fin (2476979795053773 / 2251799813685248) :: float64) + Fin (1463669878895411 / 281474976710656) = Fin (3546584706554265 / 562949953421312)"
  apply (simp add: plus_float64_def fadd_def is_zero_def signed_zero_def signed_inf_def)
  apply (rule rnd_evalI [where k = "2" and e = "-50" and m = 7093169413108530])
  apply (simp_all add: pow2_def)
  apply (rule rhe_tie_down)
  apply simp_all
  done

lemma fl_47: "(Fin 960 :: float64) - Fin 0 = Fin 960"
  apply (simp add: minus_float64_def fadd_def is_zero_def signed_zero_def signed_inf_def)
  apply (rule rnd_evalI [where k = "9" and e = "-43" and m = 8444249301319680])
  apply (simp_all add: pow2_def)
  apply (rule rhe_eqI)
  apply simp_all
  done

lemma fl_48: "(Fin 0 :: float64) + Fin 960 = Fin 960"
  apply (simp add: plus_float64_def fadd_def is_zero_def signed_zero_def signed_inf_def)
  apply (rule rnd_evalI [where k = "9" and e = "-43" and m = 8444249301319680])
  apply (simp_all add: pow2_def)
  apply (rule rhe_eqI)
  apply simp_all
  done

lemma fl_49: "(Fin 480 :: float64) - Fin 0 = Fin 480"
  apply (simp add: minus_float64_def fadd_def is_zero_def signed_zero_def signed_inf_def)
  apply (rule rnd_evalI [where k = "8" and e = "-44" and m = 8444249301319680])
  apply (simp_all add: pow2_def)
  apply (rule rhe_eqI)
  apply simp_all
  done

lemma fl_50: "(Fin 0 :: float64) + Fin 480 = Fin 480"
  apply (simp add: plus_float64_def fadd_def is_zero_def signed_zero_def signed_inf_def)
  apply (rule rnd_evalI [where k = "8" and e = "-44" and m = 8444249301319680])
  apply (simp_all add: pow2_def)
  apply (rule rhe_eqI)
  apply simp_all
  done

lemma fl_51: "rnd (100000000000000000000000000000000000000000000000000000000000000000000000000000000000000000000000000000000000000000000000000000000000000000000000000000000000000000000000000000000000000000000000000000000000000000000000000000000000000000000000000000000000000000000000000000000000000000000000000000000000000000000) = Fin 100000000000000001097906362944045541740492309677311846336810682903157585404911491537163328978494688899061249669721172515611590283743140088328307009198146046031271664502933027185697489699588559043338384466165001178426897626212945177628091195786707458122783970171784415105291802893207873272974885715430223118336"
  apply (rule rnd_evalI [where k = "1023" and e = "971" and m = 5010420900022432])
  apply (simp_all add: pow2_def)
  apply (rule rhe_eqI)
  apply simp_all
  done

lemma fl_52: "(Fin 100000000000000001097906362944045541740492309677311846336810682903157585404911491537163328978494688899061249669721172515611590283743140088328307009198146046031271664502933027185697489699588559043338384466165001178426897626212945177628091195786707458122783970171784415105291802893207873272974885715430223118336 :: float64) - Fin 0 = Fin 100000000000000001097906362944045541740492309677311846336810682903157585404911491537163328978494688899061249669721172515611590283743140088328307009198146046031271664502933027185697489699588559043338384466165001178426897626212945177628091195786707458122783970171784415105291802893207873272974885715430223118336"
  apply (simp add: minus_float64_def fadd_def is_zero_def signed_zero_def signed_inf_def)
  apply (rule rnd_evalI [where k = "1023" and e = "971" and m = 5010420900022432])
  apply (simp_all add: pow2_def)
  apply (rule rhe_eqI)
  apply simp_all
  done

lemma fl_53: "(Fin 100000000000000001097906362944045541740492309677311846336810682903157585404911491537163328978494688899061249669721172515611590283743140088328307009198146046031271664502933027185697489699588559043338384466165001178426897626212945177628091195786707458122783970171784415105291802893207873272974885715430223118336 :: float64) / Fin 4 = Fin 25000000000000000274476590736011385435123077419327961584202670725789396351227872884290832244623672224765312417430293128902897570935785022082076752299536511507817916125733256796424372424897139760834596116541250294606724406553236294407022798946676864530695992542946103776322950723301968318243721428857555779584"
  apply (simp add: divide_float64_def fdiv_def is_zero_def signed_zero_def signed_inf_def)
  apply (rule rnd_evalI [where k = "1021" and e = "969" and m = 5010420900022432])
  apply (simp_all add: pow2_def)
  apply (rule rhe_eqI)
  apply simp_all
  done

lemma fl_54: "(Fin 0 :: float64) + Fin 25000000000000000274476590736011385435123077419327961584202670725789396351227872884290832244623672224765312417430293128902897570935785022082076752299536511507817916125733256796424372424897139760834596116541250294606724406553236294407022798946676864530695992542946103776322950723301968318243721428857555779584 = Fin 25000000000000000274476590736011385435123077419327961584202670725789396351227872884290832244623672224765312417430293128902897570935785022082076752299536511507817916125733256796424372424897139760834596116541250294606724406553236294407022798946676864530695992542946103776322950723301968318243721428857555779584"
  apply (simp add: plus_float64_def fadd_def is_zero_def signed_zero_def signed_inf_def)
  apply (rule rnd_evalI [where k = "1021" and e = "969" and m = 5010420900022432])
  apply (simp_all add: pow2_def)
  apply (rule rhe_eqI)
  apply simp_all
  done

lemma fl_55: "(Fin 100000000000000001097906362944045541740492309677311846336810682903157585404911491537163328978494688899061249669721172515611590283743140088328307009198146046031271664502933027185697489699588559043338384466165001178426897626212945177628091195786707458122783970171784415105291802893207873272974885715430223118336 :: float64) / Fin 2 = Fin 50000000000000000548953181472022770870246154838655923168405341451578792702455745768581664489247344449530624834860586257805795141871570044164153504599073023015635832251466513592848744849794279521669192233082500589213448813106472588814045597893353729061391985085892207552645901446603936636487442857715111559168"
  apply (simp add: divide_float64_def fdiv_def is_zero_def signed_zero_def signed_inf_def)
  apply (rule rnd_evalI [where k = "1022" and e = "970" and m = 5010420900022432])
  apply (simp_all add: pow2_def)
  apply (rule rhe_eqI)
  apply simp_all
  done

lemma fl_56: "(Fin 0 :: float64) + Fin 50000000000000000548953181472022770870246154838655923168405341451578792702455745768581664489247344449530624834860586257805795141871570044164153504599073023015635832251466513592848744849794279521669192233082500589213448813106472588814045597893353729061391985085892207552645901446603936636487442857715111559168 = Fin 50000000000000000548953181472022770870246154838655923168405341451578792702455745768581664489247344449530624834860586257805795141871570044164153504599073023015635832251466513592848744849794279521669192233082500589213448813106472588814045597893353729061391985085892207552645901446603936636487442857715111559168"
  apply (simp add: plus_float64_def fadd_def is_zero_def signed_zero_def signed_inf_def)
  apply (rule rnd_evalI [where k = "1022" and e = "970" and m = 5010420900022432])
  apply (simp_all add: pow2_def)
  apply (rule rhe_eqI)
  apply simp_all
  done

lemma fl_57: "(Fin 3 :: float64) * Fin 100000000000000001097906362944045541740492309677311846336810682903157585404911491537163328978494688899061249669721172515611590283743140088328307009198146046031271664502933027185697489699588559043338384466165001178426897626212945177628091195786707458122783970171784415105291802893207873272974885715430223118336 = PInf"
  apply (simp add: times_float64_def fmul_def is_zero_def signed_zero_def signed_inf_def)
  apply (rule rnd_overflowI)
  apply (simp_all add: pow2_def)
  done

lemma fl_58: "(PInf :: float64) / Fin 4 = PInf"
  by (simp add: divide_float64_def fdiv_def is_zero_def signed_zero_def signed_inf_def)

lemma fl_59: "(Fin 0 :: float64) + PInf = PInf"
  by (simp add: plus_float64_def fadd_def is_zero_def signed_zero_def signed_inf_def)

lemma fl_60: "(Fin (- 3) :: float64) / Fin 72 = Fin (- (6004799503160661 / 144115188075855872))"
  apply (simp add: divide_float64_def fdiv_def is_zero_def signed_zero_def signed_inf_def)
  apply (rule rnd_neg_evalI [where k = "-5" and e = "-57" and m = 6004799503160661])
  apply (simp_all add: pow2_def)
  apply (rule rhe_eqI)
  apply simp_all
  done

lemma fl_61: "(Fin (- (6004799503160661 / 144115188075855872)) :: float64) * Fin 96 = Fin (- 4)"
  apply (simp add: times_float64_def fmul_def is_zero_def signed_zero_def signed_inf_def)
  apply (rule rnd_neg_evalI [where k = "1" and e = "-51" and m = 9007199254740992])
  apply (simp_all add: pow2_def)
  apply (rule rhe_tie_up)
  apply simp_all
  done

lemma fl_62: "(Fin 0 :: float64) + Fin 4 = Fin 4"
  apply (simp add: plus_float64_def fadd_def is_zero_def signed_zero_def signed_inf_def)
  apply (rule rnd_evalI [where k = "2" and e = "-50" and m = 4503599627370496])
  apply (simp_all add: pow2_def)
  apply (rule rhe_eqI)
  apply simp_all
  done

lemma fl_63: "(Fin 4 :: float64) + Fin 12 = Fin 16"
  apply (simp add: plus_float64_def fadd_def is_zero_def signed_zero_def signed_inf_def)
  apply (rule rnd_evalI [where k = "4" and e = "-48" and m = 4503599627370496])
  apply (simp_all add: pow2_def)
  apply (rule rhe_eqI)
  apply simp_all
  done

lemma fl_64: "(Fin 14 :: float64) / Fin 72 = Fin (7005599420354105 / 36028797018963968)"
  apply (simp add: divide_float64_def fdiv_def is_zero_def signed_zero_def signed_inf_def)
  apply (rule rnd_evalI [where k = "-3" and e = "-55" and m = 7005599420354105])
  apply (simp_all add: pow2_def)
  apply (rule rhe_eqI)
  apply simp_all
  done

lemma fl_65: "(Fin 0 :: float64) + Fin (7005599420354105 / 36028797018963968) = Fin (7005599420354105 / 36028797018963968)"
  apply (simp add: plus_float64_def fadd_def is_zero_def signed_zero_def signed_inf_def)
  apply (rule rnd_evalI [where k = "-3" and e = "-55" and m = 7005599420354105])
  apply (simp_all add: pow2_def)
  apply (rule rhe_eqI)
  apply simp_all
  done

lemma fl_66: "(Fin (7005599420354105 / 36028797018963968) :: float64) + Fin (1 / 128) = Fin (7287074397064761 / 36028797018963968)"
  apply (simp add: plus_float64_def fadd_def is_zero_def signed_zero_def signed_inf_def)
  apply (rule rnd_evalI [where k = "-3" and e = "-55" and m = 7287074397064761])
  apply (simp_all add: pow2_def)
  apply (rule rhe_eqI)
  apply simp_all
  done

lemma fl_67: "(Fin (7287074397064761 / 36028797018963968) :: float64) + Fin (1 / 8) = Fin (1473834253054407 / 4503599627370496)"
  apply (simp add: plus_float64_def fadd_def is_zero_def signed_zero_def signed_inf_def)
  apply (rule rnd_evalI [where k = "-2" and e = "-54" and m = 5895337012217628])
  apply (simp_all add: pow2_def)
  apply (rule rhe_tie_down)
  apply simp_all
  done

lemma fl_68: "(Fin (1473834253054407 / 4503599627370496) :: float64) - Fin (1 / 128) = Fin (1438649880965575 / 4503599627370496)"
  apply (simp add: minus_float64_def fadd_def is_zero_def signed_zero_def signed_inf_def)
  apply (rule rnd_evalI [where k = "-2" and e = "-54" and m = 5754599523862300])
  apply (simp_all add: pow2_def)
  apply (rule rhe_eqI)
  apply simp_all
  done

lemma fl_69: "(Fin (1438649880965575 / 4503599627370496) :: float64) - Fin (1 / 8) = Fin (875699927544263 / 4503599627370496)"
  apply (simp add: minus_float64_def fadd_def is_zero_def signed_zero_def signed_inf_def)
  apply (rule rnd_evalI [where k = "-3" and e = "-55" and m = 7005599420354104])
  apply (simp_all add: pow2_def)
  apply (rule rhe_eqI)
  apply simp_all
  done

lemma fl_70: "(Fin (875699927544263 / 4503599627370496) :: float64) * Fin 96 = Fin (2627099782632789 / 140737488355328)"
  apply (simp add: times_float64_def fmul_def is_zero_def signed_zero_def signed_inf_def)
  apply (rule rnd_evalI [where k = "4" and e = "-48" and m = 5254199565265578])
  apply (simp_all add: pow2_def)
  apply (rule rhe_eqI)
  apply simp_all
  done

lemma fl_71: "(Fin 0 :: float64) + Fin (2627099782632789 / 140737488355328) = Fin (2627099782632789 / 140737488355328)"
  apply (simp add: plus_float64_def fadd_def is_zero_def signed_zero_def signed_inf_def)
  apply (rule rnd_evalI [where k = "4" and e = "-48" and m = 5254199565265578])
  apply (simp_all add: pow2_def)
  apply (rule rhe_eqI)
  apply simp_all
  done

lemma fl_72: "(Fin 16 :: float64) + Fin 2 = Fin 18"
  apply (simp add: plus_float64_def fadd_def is_zero_def signed_zero_def signed_inf_def)
  apply (rule rnd_evalI [where k = "4" and e = "-48" and m = 5066549580791808])
  apply (simp_all add: pow2_def)
  apply (rule rhe_eqI)
  apply simp_all
  done

lemmas fl_evals =
  fl_1 fl_2 fl_3 fl_4 fl_5 fl_6 fl_7 fl_8 fl_9 fl_10 fl_11 fl_12 fl_13 fl_14 fl_15 fl_16 fl_17 fl_18 fl_19 fl_20 fl_21 fl_22 fl_23 fl_24 fl_25 fl_26 fl_27 fl_28 fl_29 fl_30 fl_31 fl_32 fl_33 fl_34 fl_35 fl_36 fl_37 fl_38 fl_39 fl_40 fl_41 fl_42 fl_43 fl_44 fl_45 fl_46 fl_47 fl_48 fl_49 fl_50 fl_51 fl_52 fl_53 fl_54 fl_55 fl_56 fl_57 fl_58 fl_59 fl_60 fl_61 fl_62 fl_63 fl_64 fl_65 fl_66 fl_67 fl_68 fl_69 fl_70 fl_71 fl_72

lemma lit_real: "(lit n :: real) = of_nat n"
  by (induction n) simp_all

lemmas ex_defs =
  ex_axis_def ex_ticks_def ex_font_def ex_area_def ConstantTicks_Marks_def PtInch_def
  lit_float64 zero_float64_def one_float64_def uminus_float64_def minor_def

subsection \<open>The last command of a drawing routine\<close>

lemma drawHoriz_last:
  "last (drawHoriz a da) =
     Line [\<lparr>X = X (Min_da da),
            Y = snd (horiz_tick_part a da (snd (horiz_label_part a da (Y (Min_da da)))))\<rparr>,
           \<lparr>X = X (Max_da da),
            Y = snd (horiz_tick_part a da (snd (horiz_label_part a da (Y (Min_da da)))))\<rparr>]"
  by (simp add: drawHoriz_def Let_def split: prod.split)

lemma drawVert_last:
  "last (drawVert math_Pi a da) =
     Line [\<lparr>X = snd (vert_tick_part a da (snd (vert_label_part math_Pi a da (X (Min_da da))))),
            Y = Y (Min_da da)\<rparr>,
           \<lparr>X = snd (vert_tick_part a da (snd (vert_label_part math_Pi a da (X (Min_da da))))),
            Y = Y (Max_da da)\<rparr>]"
  by (simp add: drawVert_def Let_def split: prod.split)

lemma horiz_cursor:
  "snd (horiz_tick_part a da (snd (horiz_label_part a da y))) =
     foldl (+) y
       ((if Label_ax a \<noteq> '''' then
           [- (Descent (Extents (Font (LabelStyle_ax a))) / PtInch * DPI da),
            Ascent (Extents (Font (LabelStyle_ax a))) / PtInch * DPI da]
         else [])
        @ (if Marks (Ticks a) (Min_ax a) (Max_ax a) \<noteq> [] then
             [labelHeight (Ticks a) (Marks (Ticks a) (Min_ax a) (Max_ax a)) * DPI da,
              Length (Ticks a) * DPI da]
           else []))"
  by (simp add: horiz_tick_part_def horiz_label_part_def Let_def)

section \<open>The claims\<close>

subsection \<open>The loop of \<open>labelWidth\<close>\<close>

lemma labelWidth_loop_fold:
  "labelWidth_loop tick m ticks =
     foldl (\<lambda>m w. if m < w then w else m) m
       (map (\<lambda>t. Width_font (Font (LabelStyle tick)) (Label t)) (filter (\<lambda>t. \<not> minor t) ticks))"
  by (induction ticks arbitrary: m) (simp_all add: Let_def)

lemma labelWidth_loop_cases:
  "labelWidth_loop tick m ticks = m \<or>
   (\<exists>t\<in>set ticks. \<not> minor t \<and>
      labelWidth_loop tick m ticks = Width_font (Font (LabelStyle tick)) (Label t))"
proof (induction ticks arbitrary: m)
  case Nil
  show ?case by simp
next
  case (Cons t ticks)
  show ?case
    using Cons.IH [of m] Cons.IH [of "Width_font (Font (LabelStyle tick)) (Label t)"]
    by (simp add: Let_def) blast
qed

lemma labelWidth_loop_ge_start:
  fixes tick :: "float64 TickMarks"
  assumes "m \<noteq> NaN"
    and "\<forall>t\<in>set ticks. \<not> minor t \<longrightarrow> Width_font (Font (LabelStyle tick)) (Label t) \<noteq> NaN"
  shows "m \<le> labelWidth_loop tick m ticks"
  using assms
proof (induction ticks arbitrary: m)
  case Nil
  then show ?case by (simp add: fle_refl)
next
  case (Cons t ticks)
  let ?w = "Width_font (Font (LabelStyle tick)) (Label t)"
  show ?case
  proof (cases "\<not> minor t \<and> m < ?w")
    case True
    then have "?w \<le> labelWidth_loop tick ?w ticks" using Cons.IH [of ?w] Cons.prems by simp
    with True have "m \<le> labelWidth_loop tick ?w ticks" using flt_fle fle_trans by blast
    then show ?thesis using True by (simp add: Let_def)
  next
    case False
    have "m \<le> labelWidth_loop tick m ticks" using Cons.IH [of m] Cons.prems by simp
    then show ?thesis using False by (auto simp: Let_def)
  qed
qed

lemma labelWidth_loop_ge_width:
  fixes tick :: "float64 TickMarks"
  assumes "m \<noteq> NaN"
    and "\<forall>t\<in>set ticks. \<not> minor t \<longrightarrow> Width_font (Font (LabelStyle tick)) (Label t) \<noteq> NaN"
    and "t \<in> set ticks" "\<not> minor t"
  shows "Width_font (Font (LabelStyle tick)) (Label t) \<le> labelWidth_loop tick m ticks"
  using assms
proof (induction ticks arbitrary: m)
  case Nil
  then show ?case by simp
next
  case (Cons u ticks)
  let ?w = "Width_font (Font (LabelStyle tick)) (Label u)"
  have rest: "\<forall>t\<in>set ticks. \<not> minor t \<longrightarrow> Width_font (Font (LabelStyle tick)) (Label t) \<noteq> NaN"
    using Cons.prems(2) by simp
  show ?case
  proof (cases "minor u")
    case True
    then have "t \<in> set ticks" using Cons.prems(3,4) by auto
    then show ?thesis using True Cons.IH [OF Cons.prems(1) rest _ Cons.prems(4)] by simp
  next
    case False
    then have w: "?w \<noteq> NaN" using Cons.prems(2) by simp
    show ?thesis
    proof (cases "m < ?w")
      case True
      then have eq: "labelWidth_loop tick m (u # ticks) = labelWidth_loop tick ?w ticks"
        using False by (simp add: Let_def)
      show ?thesis
      proof (cases "t = u")
        case True
        then show ?thesis unfolding eq using labelWidth_loop_ge_start [OF w rest] by simp
      next
        case False
        then have "t \<in> set ticks" using Cons.prems(3) by simp
        then show ?thesis unfolding eq using Cons.IH [OF w rest _ Cons.prems(4)] by simp
      qed
    next
      case nlt: False
      then have eq: "labelWidth_loop tick m (u # ticks) = labelWidth_loop tick m ticks"
        using False by (simp add: Let_def)
      show ?thesis
      proof (cases "t = u")
        case True
        have "?w \<le> m" using not_flt_fle [OF Cons.prems(1) w nlt] .
        moreover have "m \<le> labelWidth_loop tick m ticks"
          using labelWidth_loop_ge_start [OF Cons.prems(1) rest] .
        ultimately show ?thesis unfolding eq True by (rule fle_trans)
      next
        case False
        then have "t \<in> set ticks" using Cons.prems(3) by simp
        then show ?thesis unfolding eq using Cons.IH [OF Cons.prems(1) rest _ Cons.prems(4)] by simp
      qed
    qed
  qed
qed

lemma labelWidth_loop_real:
  fixes tick :: "real TickMarks"
  shows "labelWidth_loop tick m ticks =
     Max (insert m ((\<lambda>t. Width_font (Font (LabelStyle tick)) (Label t)) ` {t \<in> set ticks. \<not> minor t}))"
proof (induction ticks arbitrary: m)
  case Nil
  then show ?case by simp
next
  case (Cons t ticks)
  let ?S = "(\<lambda>t. Width_font (Font (LabelStyle tick)) (Label t)) ` {t \<in> set ticks. \<not> minor t}"
  let ?w = "Width_font (Font (LabelStyle tick)) (Label t)"
  have fin: "finite ?S" by simp
  show ?case
  proof (cases "minor t")
    case True
    then have "{u \<in> set (t # ticks). \<not> minor u} = {u \<in> set ticks. \<not> minor u}" by auto
    then show ?thesis using True Cons.IH [of m] by simp
  next
    case False
    then have "{u \<in> set (t # ticks). \<not> minor u} = insert t {u \<in> set ticks. \<not> minor u}" by auto
    then have S: "(\<lambda>t. Width_font (Font (LabelStyle tick)) (Label t)) ` {u \<in> set (t # ticks). \<not> minor u}
        = insert ?w ?S" by simp
    have M: "Max (insert m (insert ?w ?S)) = max m (Max (insert ?w ?S))"
      using fin by (intro Max_insert) simp_all
    have M': "Max (insert m (insert ?w ?S)) = max ?w (Max (insert m ?S))"
      using fin by (subst insert_commute) (intro Max_insert, simp_all)
    have w_le: "?w \<le> Max (insert ?w ?S)" using fin by (intro Max_ge) simp_all
    have m_le: "m \<le> Max (insert m ?S)" using fin by (intro Max_ge) simp_all
    show ?thesis
    proof (cases "m < ?w")
      case True
      have "labelWidth_loop tick m (t # ticks) = Max (insert ?w ?S)"
        using True False Cons.IH [of ?w] by (simp add: Let_def)
      also have "\<dots> = Max (insert m (insert ?w ?S))"
      proof -
        have le: "m \<le> Max (insert ?w ?S)" using True w_le by linarith
        show ?thesis unfolding M by (rule max_absorb2 [OF le, symmetric])
      qed
      finally show ?thesis unfolding S .
    next
      case nlt: False
      have "labelWidth_loop tick m (t # ticks) = Max (insert m ?S)"
        using nlt False Cons.IH [of m] by (simp add: Let_def)
      also have "\<dots> = Max (insert m (insert ?w ?S))"
      proof -
        have le: "?w \<le> Max (insert m ?S)" using nlt m_le by linarith
        show ?thesis unfolding M' by (rule max_absorb2 [OF le, symmetric])
      qed
      finally show ?thesis unfolding S .
    qed
  qed
qed

text \<open>
  C1 (as amended).  For every axis \<open>a\<close>, with \<open>marks = a.Ticks.Marks(a.Min, a.Max)\<close>,
  \<open>a.height()\<close> is the sum, accumulated from zero in this order, of: the \<^emph>\<open>height\<close> of the
  axis-label font (not its ascent) converted to inches, if the label is not empty; the
  tick length plus \<open>labelHeight(marks)\<close>, if \<open>marks\<close> is not empty; half of the width of the
  axis line; the padding.
\<close>

theorem C1_height_sum:
  "height a =
     foldl (+) 0
       ((if Label_ax a \<noteq> '''' then [Height (Extents (Font (LabelStyle_ax a))) / PtInch] else [])
        @ (if Marks (Ticks a) (Min_ax a) (Max_ax a) \<noteq> []
           then [Length (Ticks a) + labelHeight (Ticks a) (Marks (Ticks a) (Min_ax a) (Max_ax a))]
           else [])
        @ [Width (AxisStyle a) / lit 2, Padding a])"
  by (simp add: height_def Let_def)

text \<open>
  The claim as it was stated, with the ascent of the label font, fails on an axis labelled
  \<open>X\<close> without tick marks, whose label font has ascent 9 and height 12 points: the code
  returns \<open>12/72 + 1/128 + 1/8\<close> inches, the claim gives \<open>9/72 + 0 + 1/128 + 1/8\<close>.
\<close>

theorem C1_height_ascent_counterexample:
  "\<not> feq (height (ex_axis ''X'' [] :: float64 Axis))
         (foldl (+) 0
            [Ascent (Extents (Font (LabelStyle_ax (ex_axis ''X'' [] :: float64 Axis)))) / PtInch,
             0,
             Width (AxisStyle (ex_axis ''X'' [] :: float64 Axis)) / lit 2,
             Padding (ex_axis ''X'' [] :: float64 Axis)])"
proof -
  have code: "height (ex_axis ''X'' [] :: float64 Axis) = Fin (2697468526810453 / 9007199254740992)"
    by (simp add: height_def ex_defs fl_evals)
  have claim: "foldl (+) 0
            [Ascent (Extents (Font (LabelStyle_ax (ex_axis ''X'' [] :: float64 Axis)))) / PtInch,
             0,
             Width (AxisStyle (ex_axis ''X'' [] :: float64 Axis)) / lit 2,
             Padding (ex_axis ''X'' [] :: float64 Axis)] = Fin (33 / 128)"
    by (simp add: ex_defs fl_evals)
  show ?thesis unfolding code claim by (simp add: feq_def)
qed

text \<open>
  C2, at the failing input.  On the axis labelled \<open>X\<close> without tick marks, whose label font
  has ascent 9, descent \<open>-3\<close> and height 12 points, \<open>width\<close> adds the ascent of the label
  font, \<open>9/72\<close> inch, where the claim has its height, \<open>12/72\<close> inch.  \<open>drawVert\<close> moves its
  cursor by the ascent and then by the descent, that is by the height: at 96 dots per inch
  it draws the axis line 16 dots from the edge of the area, and the width returned, less
  the half line width and the padding, is 12 dots.
\<close>

theorem C2_width_at_failing_input:
  "width (ex_axis ''X'' [] :: float64 Axis) = Fin (33 / 128) \<and>
   foldl (+) 0
     [Height (Extents (Font (LabelStyle_ax (ex_axis ''X'' [] :: float64 Axis)))) / PtInch,
      0,
      Width (AxisStyle (ex_axis ''X'' [] :: float64 Axis)) / lit 2,
      Padding (ex_axis ''X'' [] :: float64 Axis)] = Fin (2697468526810453 / 9007199254740992) \<and>
   last (drawVert (Fin (884279719003555 / 281474976710656)) (ex_axis ''X'' []) ex_area) =
     Line [\<lparr>X = Fin 16, Y = Fin 0\<rparr>, \<lparr>X = Fin 16, Y = Fin 480\<rparr>] \<and>
   (width (ex_axis ''X'' [] :: float64 Axis) - Width (AxisStyle (ex_axis ''X'' [] :: float64 Axis)) / lit 2
      - Padding (ex_axis ''X'' [] :: float64 Axis)) * DPI (ex_area :: float64 DrawArea) = Fin 12"
proof -
  have w: "width (ex_axis ''X'' [] :: float64 Axis) = Fin (33 / 128)"
    by (simp add: width_def ex_defs fl_evals)
  have c: "foldl (+) 0
     [Height (Extents (Font (LabelStyle_ax (ex_axis ''X'' [] :: float64 Axis)))) / PtInch,
      0,
      Width (AxisStyle (ex_axis ''X'' [] :: float64 Axis)) / lit 2,
      Padding (ex_axis ''X'' [] :: float64 Axis)] = Fin (2697468526810453 / 9007199254740992)"
    by (simp add: ex_defs fl_evals)
  have d: "last (drawVert (Fin (884279719003555 / 281474976710656)) (ex_axis ''X'' []) ex_area) =
     Line [\<lparr>X = Fin 16, Y = Fin 0\<rparr>, \<lparr>X = Fin 16, Y = Fin 480\<rparr>]"
    unfolding drawVert_last
    by (simp add: vert_tick_part_def vert_label_part_def Let_def ex_defs fl_evals)
  have r: "(Fin (33 / 128) - Width (AxisStyle (ex_axis ''X'' [] :: float64 Axis)) / lit 2
      - Padding (ex_axis ''X'' [] :: float64 Axis)) * DPI (ex_area :: float64 DrawArea) = Fin 12"
    by (simp add: ex_defs fl_evals)
  show ?thesis unfolding w using c d r by simp
qed


text \<open>
  What \<open>drawHoriz\<close> does: it ends with the axis line, drawn from \<open>da.Min.X\<close> to \<open>da.Max().X\<close>
  at the height its cursor has reached, which is \<open>da.Min.Y\<close>, advanced by the descent
  (negated) and by the ascent of the label font, each converted to dots, if the label is
  not empty, then by \<open>labelHeight(marks)\<close> and by the tick length, each converted to dots,
  if \<open>marks\<close> is not empty.
\<close>

lemma drawHoriz_axis_line:
  fixes a :: "'a::{zero,one,plus,minus,uminus,times,inverse} Axis"
  shows
  "last (drawHoriz a da) =
     Line [\<lparr>X = X (Min_da da),
            Y = foldl (+) (Y (Min_da da))
                  ((if Label_ax a \<noteq> '''' then
                      [- (Descent (Extents (Font (LabelStyle_ax a))) / PtInch * DPI da),
                       Ascent (Extents (Font (LabelStyle_ax a))) / PtInch * DPI da]
                    else [])
                   @ (if Marks (Ticks a) (Min_ax a) (Max_ax a) \<noteq> [] then
                        [labelHeight (Ticks a) (Marks (Ticks a) (Min_ax a) (Max_ax a)) * DPI da,
                         Length (Ticks a) * DPI da]
                      else []))\<rparr>,
           \<lparr>X = X (Max_da da),
            Y = foldl (+) (Y (Min_da da))
                  ((if Label_ax a \<noteq> '''' then
                      [- (Descent (Extents (Font (LabelStyle_ax a))) / PtInch * DPI da),
                       Ascent (Extents (Font (LabelStyle_ax a))) / PtInch * DPI da]
                    else [])
                   @ (if Marks (Ticks a) (Min_ax a) (Max_ax a) \<noteq> [] then
                        [labelHeight (Ticks a) (Marks (Ticks a) (Min_ax a) (Max_ax a)) * DPI da,
                         Length (Ticks a) * DPI da]
                      else []))\<rparr>]"
  unfolding drawHoriz_last
  by (simp add: horiz_cursor [symmetric] del: foldl_append)

text \<open>
  The difference between the two routines is the label font, and nothing else.  In exact
  arithmetic the axis line is drawn at
  \<open>da.Min.Y + (a.height() - a.AxisStyle.Width/2 - a.Padding) * da.DPI()\<close> if and only if the
  axis has no label, or the area has no dots per inch, or the height of the label font is
  its ascent less its descent.
\<close>

lemma drawHoriz_mirrors_height_iff:
  fixes a :: "real Axis"
  shows
  "last (drawHoriz a da) =
     Line [\<lparr>X = X (Min_da da),
            Y = Y (Min_da da) + (height a - Width (AxisStyle a) / lit 2 - Padding a) * DPI da\<rparr>,
           \<lparr>X = X (Max_da da),
            Y = Y (Min_da da) + (height a - Width (AxisStyle a) / lit 2 - Padding a) * DPI da\<rparr>]
   \<longleftrightarrow>
   Label_ax a = '''' \<or> DPI da = 0 \<or>
   Height (Extents (Font (LabelStyle_ax a))) =
     Ascent (Extents (Font (LabelStyle_ax a))) - Descent (Extents (Font (LabelStyle_ax a)))"
proof -
  have "snd (horiz_tick_part a da (snd (horiz_label_part a da (Y (Min_da da))))) =
          Y (Min_da da) + (height a - Width (AxisStyle a) / lit 2 - Padding a) * DPI da
            + (if Label_ax a = '''' then 0
               else (Ascent (Extents (Font (LabelStyle_ax a)))
                       - Descent (Extents (Font (LabelStyle_ax a)))
                       - Height (Extents (Font (LabelStyle_ax a)))) / 72 * DPI da)"
    by (simp add: horiz_tick_part_def horiz_label_part_def height_def Let_def PtInch_def lit_real
          algebra_simps diff_divide_distrib)
  then show ?thesis
    unfolding drawHoriz_last by auto
qed

text \<open>
  Where the fonts agree, the two routines still round differently in \<open>float64\<close>.  On the
  axis without label that has one major tick, with the default tick length \<open>1/10\<close>, line
  width \<open>1/64\<close> and padding \<open>1/8\<close> and a tick label font of ascent 9 points, at 96 dots per
  inch: the axis line is drawn at \<open>y = 21.6\<close>, and
  \<open>da.Min.Y + (a.height() - a.AxisStyle.Width/2 - a.Padding) * da.DPI()\<close> is
  \<open>21.599999999999998\<close>.
\<close>

lemma drawHoriz_rounding_example:
  "last (drawHoriz (ex_axis '''' [\<lparr>Value = 0, Label = ''0''\<rparr>] :: float64 Axis) ex_area) =
     Line [\<lparr>X = Fin 0, Y = Fin (3039929748475085 / 140737488355328)\<rparr>,
           \<lparr>X = Fin 960, Y = Fin (3039929748475085 / 140737488355328)\<rparr>] \<and>
   Y (Min_da (ex_area :: float64 DrawArea))
     + (height (ex_axis '''' [\<lparr>Value = 0, Label = ''0''\<rparr>] :: float64 Axis)
          - Width (AxisStyle (ex_axis '''' [\<lparr>Value = 0, Label = ''0''\<rparr>] :: float64 Axis)) / lit 2
          - Padding (ex_axis '''' [\<lparr>Value = 0, Label = ''0''\<rparr>] :: float64 Axis))
       * DPI (ex_area :: float64 DrawArea)
     = Fin (6079859496950169 / 281474976710656) \<and>
   \<not> feq (Fin (3039929748475085 / 140737488355328)) (Fin (6079859496950169 / 281474976710656))"
proof -
  have h: "height (ex_axis '''' [\<lparr>Value = 0, Label = ''0''\<rparr>] :: float64 Axis) =
      Fin (3222888483337011 / 9007199254740992)"
    by (simp add: height_def ex_defs fl_evals)
  have d: "last (drawHoriz (ex_axis '''' [\<lparr>Value = 0, Label = ''0''\<rparr>] :: float64 Axis) ex_area) =
     Line [\<lparr>X = Fin 0, Y = Fin (3039929748475085 / 140737488355328)\<rparr>,
           \<lparr>X = Fin 960, Y = Fin (3039929748475085 / 140737488355328)\<rparr>]"
    unfolding drawHoriz_last horiz_cursor
    by (simp add: ex_defs fl_evals)
  have c: "Y (Min_da (ex_area :: float64 DrawArea))
     + (Fin (3222888483337011 / 9007199254740992)
          - Width (AxisStyle (ex_axis '''' [\<lparr>Value = 0, Label = ''0''\<rparr>] :: float64 Axis)) / lit 2
          - Padding (ex_axis '''' [\<lparr>Value = 0, Label = ''0''\<rparr>] :: float64 Axis))
       * DPI (ex_area :: float64 DrawArea)
     = Fin (6079859496950169 / 281474976710656)"
    by (simp add: ex_defs fl_evals)
  show ?thesis unfolding h using c d by (simp add: feq_def)
qed

text \<open>
  C4 (as amended).  In \<open>float64\<close>, for an axis with finite \<open>Min < Max\<close>:
  \<^item> \<open>X(da, Min) == da.Min.X\<close> whenever \<open>da.Max().X - da.Min.X\<close> is finite;
  \<^item> when \<open>Max - Min\<close> is finite (does not overflow), \<open>X(da, Max)\<close> is
    \<open>da.Min.X + (da.Max().X - da.Min.X)\<close> as \<open>float64\<close> computes it, which is \<open>da.Max().X\<close> up
    to rounding, and \<open>== da.Max().X\<close> when \<open>da.Min.X\<close> is zero and \<open>da.Max().X\<close> is finite;
  \<^item> when \<open>Max - Min\<close> is finite, \<open>da.Min.X < da.Max().X\<close> are finite and their difference
    is finite, \<open>X\<close> is non-decreasing: \<open>x1 <= x2\<close> gives \<open>X(da, x1) <= X(da, x2)\<close>;
  and the same for \<open>Y\<close>.  In exact arithmetic, for \<open>Min < Max\<close>, \<open>X(da, Min) = da.Min.X\<close>,
  \<open>X(da, Max) = da.Max().X\<close> and \<open>X\<close> is non-decreasing when \<open>da.Min.X < da.Max().X\<close>, and the
  same for \<open>Y\<close>.
\<close>

theorem C4_Axis_X_Y:
  fixes a :: "float64 Axis" and da :: "float64 DrawArea"
    and ar :: "real Axis" and dar :: "real DrawArea"
  shows
  "(finite64 (Min_ax a) \<and> finite64 (Max_ax a) \<and> Min_ax a < Max_ax a \<longrightarrow>
     (is_float64 (X (Min_da da)) \<and> is_finite (X (Max_da da) - X (Min_da da)) \<longrightarrow>
        feq (Axis_X a da (Min_ax a)) (X (Min_da da))) \<and>
     (is_float64 (Y (Min_da da)) \<and> is_finite (Y (Max_da da) - Y (Min_da da)) \<longrightarrow>
        feq (Axis_Y a da (Min_ax a)) (Y (Min_da da))) \<and>
     (is_finite (Max_ax a - Min_ax a) \<longrightarrow>
        Axis_X a da (Max_ax a) = X (Min_da da) + (X (Max_da da) - X (Min_da da)) \<and>
        Axis_Y a da (Max_ax a) = Y (Min_da da) + (Y (Max_da da) - Y (Min_da da)) \<and>
        (is_zero (X (Min_da da)) \<and> finite64 (X (Max_da da)) \<longrightarrow>
           feq (Axis_X a da (Max_ax a)) (X (Max_da da))) \<and>
        (is_zero (Y (Min_da da)) \<and> finite64 (Y (Max_da da)) \<longrightarrow>
           feq (Axis_Y a da (Max_ax a)) (Y (Max_da da))) \<and>
        (finite64 (X (Min_da da)) \<and> finite64 (X (Max_da da)) \<and> X (Min_da da) < X (Max_da da) \<and>
         is_finite (X (Max_da da) - X (Min_da da)) \<and> x1 \<le> x2 \<longrightarrow>
           Axis_X a da x1 \<le> Axis_X a da x2) \<and>
        (finite64 (Y (Min_da da)) \<and> finite64 (Y (Max_da da)) \<and> Y (Min_da da) < Y (Max_da da) \<and>
         is_finite (Y (Max_da da) - Y (Min_da da)) \<and> y1 \<le> y2 \<longrightarrow>
           Axis_Y a da y1 \<le> Axis_Y a da y2))) \<and>
   (Min_ax ar < Max_ax ar \<longrightarrow>
     Axis_X ar dar (Min_ax ar) = X (Min_da dar) \<and> Axis_X ar dar (Max_ax ar) = X (Max_da dar) \<and>
     Axis_Y ar dar (Min_ax ar) = Y (Min_da dar) \<and> Axis_Y ar dar (Max_ax ar) = Y (Max_da dar) \<and>
     (X (Min_da dar) < X (Max_da dar) \<and> x1r \<le> x2r \<longrightarrow> Axis_X ar dar x1r \<le> Axis_X ar dar x2r) \<and>
     (Y (Min_da dar) < Y (Max_da dar) \<and> y1r \<le> y2r \<longrightarrow> Axis_Y ar dar y1r \<le> Axis_Y ar dar y2r))"
proof (intro conjI impI; (elim conjE)?)
  assume "finite64 (Min_ax a)" "finite64 (Max_ax a)" "Min_ax a < Max_ax a"
    "is_float64 (X (Min_da da))" "is_finite (X (Max_da da) - X (Min_da da))"
  then show "feq (Axis_X a da (Min_ax a)) (X (Min_da da))"
    unfolding Axis_X_def Let_def by (rule affine_min)
next
  assume "finite64 (Min_ax a)" "finite64 (Max_ax a)" "Min_ax a < Max_ax a"
    "is_float64 (Y (Min_da da))" "is_finite (Y (Max_da da) - Y (Min_da da))"
  then show "feq (Axis_Y a da (Min_ax a)) (Y (Min_da da))"
    unfolding Axis_Y_def Let_def by (rule affine_min)
next
  assume "finite64 (Min_ax a)" "finite64 (Max_ax a)" "Min_ax a < Max_ax a"
    "is_finite (Max_ax a - Min_ax a)"
  then show "Axis_X a da (Max_ax a) = X (Min_da da) + (X (Max_da da) - X (Min_da da))"
    unfolding Axis_X_def Let_def by (rule affine_max)
next
  assume "finite64 (Min_ax a)" "finite64 (Max_ax a)" "Min_ax a < Max_ax a"
    "is_finite (Max_ax a - Min_ax a)"
  then show "Axis_Y a da (Max_ax a) = Y (Min_da da) + (Y (Max_da da) - Y (Min_da da))"
    unfolding Axis_Y_def Let_def by (rule affine_max)
next
  assume m: "finite64 (Min_ax a)" "finite64 (Max_ax a)" "Min_ax a < Max_ax a"
    "is_finite (Max_ax a - Min_ax a)"
    and o: "is_zero (X (Min_da da))" "finite64 (X (Max_da da))"
  show "feq (Axis_X a da (Max_ax a)) (X (Max_da da))"
    unfolding Axis_X_def Let_def affine_max [OF m] using o by (rule affine_origin)
next
  assume m: "finite64 (Min_ax a)" "finite64 (Max_ax a)" "Min_ax a < Max_ax a"
    "is_finite (Max_ax a - Min_ax a)"
    and o: "is_zero (Y (Min_da da))" "finite64 (Y (Max_da da))"
  show "feq (Axis_Y a da (Max_ax a)) (Y (Max_da da))"
    unfolding Axis_Y_def Let_def affine_max [OF m] using o by (rule affine_origin)
next
  assume "finite64 (Min_ax a)" "finite64 (Max_ax a)" "Min_ax a < Max_ax a"
    "is_finite (Max_ax a - Min_ax a)"
    "finite64 (X (Min_da da))" "finite64 (X (Max_da da))" "X (Min_da da) < X (Max_da da)"
    "is_finite (X (Max_da da) - X (Min_da da))" "x1 \<le> x2"
  then show "Axis_X a da x1 \<le> Axis_X a da x2"
    unfolding Axis_X_def Let_def by (rule affine_monotone)
next
  assume "finite64 (Min_ax a)" "finite64 (Max_ax a)" "Min_ax a < Max_ax a"
    "is_finite (Max_ax a - Min_ax a)"
    "finite64 (Y (Min_da da))" "finite64 (Y (Max_da da))" "Y (Min_da da) < Y (Max_da da)"
    "is_finite (Y (Max_da da) - Y (Min_da da))" "y1 \<le> y2"
  then show "Axis_Y a da y1 \<le> Axis_Y a da y2"
    unfolding Axis_Y_def Let_def by (rule affine_monotone)
next
  assume "Min_ax ar < Max_ax ar"
  then show "Axis_X ar dar (Min_ax ar) = X (Min_da dar)" "Axis_X ar dar (Max_ax ar) = X (Max_da dar)"
    "Axis_Y ar dar (Min_ax ar) = Y (Min_da dar)" "Axis_Y ar dar (Max_ax ar) = Y (Max_da dar)"
    by (simp_all add: Axis_X_def Axis_Y_def)
next
  assume "Min_ax ar < Max_ax ar" "X (Min_da dar) < X (Max_da dar)" "x1r \<le> x2r"
  then show "Axis_X ar dar x1r \<le> Axis_X ar dar x2r"
    by (simp add: Axis_X_def divide_right_mono mult_right_mono)
next
  assume "Min_ax ar < Max_ax ar" "Y (Min_da dar) < Y (Max_da dar)" "y1r \<le> y2r"
  then show "Axis_Y ar dar y1r \<le> Axis_Y ar dar y2r"
    by (simp add: Axis_Y_def divide_right_mono mult_right_mono)
qed

theorem C4_Axis_X_Y_witness:
  "feq (Axis_X (ex_axis '''' [] :: float64 Axis) ex_area (Min_ax (ex_axis '''' [] :: float64 Axis)))
       (X (Min_da (ex_area :: float64 DrawArea))) \<and>
   feq (Axis_Y (ex_axis '''' [] :: float64 Axis) ex_area (Min_ax (ex_axis '''' [] :: float64 Axis)))
       (Y (Min_da (ex_area :: float64 DrawArea))) \<and>
   feq (Axis_X (ex_axis '''' [] :: float64 Axis) ex_area (Max_ax (ex_axis '''' [] :: float64 Axis)))
       (X (Max_da (ex_area :: float64 DrawArea))) \<and>
   feq (Axis_Y (ex_axis '''' [] :: float64 Axis) ex_area (Max_ax (ex_axis '''' [] :: float64 Axis)))
       (Y (Max_da (ex_area :: float64 DrawArea))) \<and>
   Axis_X (ex_axis '''' [] :: float64 Axis) ex_area (lit 2)
     \<le> Axis_X (ex_axis '''' [] :: float64 Axis) ex_area (lit 5) \<and>
   Axis_Y (ex_axis '''' [] :: float64 Axis) ex_area (lit 2)
     \<le> Axis_Y (ex_axis '''' [] :: float64 Axis) ex_area (lit 5) \<and>
   Axis_X (ex_axis '''' [] :: real Axis) ex_area (Max_ax (ex_axis '''' [] :: real Axis))
     = X (Max_da (ex_area :: real DrawArea)) \<and>
   Axis_X (ex_axis '''' [] :: real Axis) ex_area 2 \<le> Axis_X (ex_axis '''' [] :: real Axis) ex_area 5 \<and>
   Axis_Y (ex_axis '''' [] :: real Axis) ex_area 2 \<le> Axis_Y (ex_axis '''' [] :: real Axis) ex_area 5"
proof -
  let ?a = "ex_axis '''' [] :: float64 Axis" and ?da = "ex_area :: float64 DrawArea"
  let ?ar = "ex_axis '''' [] :: real Axis" and ?dar = "ex_area :: real DrawArea"
  have mn: "Min_ax ?a = Fin 0" "Max_ax ?a = Fin 10"
    by (simp_all add: ex_defs)
  have da: "X (Min_da ?da) = Fin 0" "X (Max_da ?da) = Fin 960"
    "Y (Min_da ?da) = Fin 0" "Y (Max_da ?da) = Fin 480"
    by (simp_all add: ex_defs)
  have f: "finite64 (Fin 0)" "finite64 (Fin 10)" "finite64 (Fin 960)" "finite64 (Fin 480)"
    using finite64_of_int [of 0] finite64_of_int [of 10] finite64_of_int [of 960]
      finite64_of_int [of 480] by simp_all
  have d: "is_finite (Fin 10 - Fin 0)" "is_finite (Fin 960 - Fin 0)" "is_finite (Fin 480 - Fin 0)"
    by (simp_all add: fl_evals)
  have x: "(lit 2 :: float64) \<le> lit 5" by (simp add: lit_float64)
  have r: "Min_ax ?ar < Max_ax ?ar" "X (Min_da ?dar) < X (Max_da ?dar)"
    "Y (Min_da ?dar) < Y (Max_da ?dar)" "(2 :: real) \<le> 5"
    by (simp_all add: ex_axis_def ex_area_def lit_real)
  have z: "is_zero (Fin 0)" "is_float64 (Fin 0)" "Fin 0 < Fin 10" "Fin 0 < Fin 960"
    "Fin 0 < Fin 480"
    by (simp_all add: is_zero_def)
  note t = C4_Axis_X_Y [where a = ?a and da = ?da and ?x1.0 = "lit 2" and ?x2.0 = "lit 5"
      and ?y1.0 = "lit 2" and ?y2.0 = "lit 5" and ar = ?ar and dar = ?dar
      and x1r = 2 and x2r = 5 and y1r = 2 and y2r = 5]
  note tf = t [unfolded mn da, THEN conjunct1, rule_format, OF conjI [OF f(1) conjI [OF f(2) z(3)]]]
  note tr = t [THEN conjunct2, rule_format, OF r(1)]
  have c1: "feq (Axis_X ?a ?da (Fin 0)) (Fin 0)"
    using tf z(2) d(2) by meson
  have c2: "feq (Axis_Y ?a ?da (Fin 0)) (Fin 0)"
    using tf z(2) d(3) by meson
  have c3: "feq (Axis_X ?a ?da (Fin 10)) (Fin 960)"
    using tf d(1) z(1) f(3) by meson
  have c4: "feq (Axis_Y ?a ?da (Fin 10)) (Fin 480)"
    using tf d(1) z(1) f(4) by meson
  have c5: "Axis_X ?a ?da (lit 2) \<le> Axis_X ?a ?da (lit 5)"
    using tf d(1) f(1) f(3) z(4) d(2) x by meson
  have c6: "Axis_Y ?a ?da (lit 2) \<le> Axis_Y ?a ?da (lit 5)"
    using tf d(1) f(1) f(4) z(5) d(3) x by meson
  have c7: "Axis_X ?ar ?dar (Max_ax ?ar) = X (Max_da ?dar)"
    using tr by meson
  have c8: "Axis_X ?ar ?dar 2 \<le> Axis_X ?ar ?dar 5"
    using tr r(2) r(4) by meson
  have c9: "Axis_Y ?ar ?dar 2 \<le> Axis_Y ?ar ?dar 5"
    using tr r(3) r(4) by meson
  show ?thesis
    unfolding mn da
    by (rule conjI [OF c1 conjI [OF c2 conjI [OF c3 conjI [OF c4 conjI [OF c5 conjI [OF c6
          conjI [OF c7 conjI [OF c8 c9]]]]]]]])
qed

text \<open>
  The claim as it was stated fails in \<open>float64\<close> at the upper endpoint.  With \<open>Min = 0\<close>,
  \<open>Max = 10\<close> and a drawing area that spans \<open>x\<close> from 1.1 to 6.3: \<open>p\<close> is 1, \<open>6.3 - 1.1\<close>
  is \<open>5.199999999999999\<close>, and \<open>X(da, Max) = 1.1 + 5.199999999999999 = 6.299999999999999\<close>,
  which is not \<open>da.Max().X = 6.3\<close>.
\<close>

theorem C4_X_at_Max_counterexample:
  "Min_ax (ex_axis '''' [] :: float64 Axis) = Fin 0 \<and>
   Max_ax (ex_axis '''' [] :: float64 Axis) = Fin 10 \<and>
   X (Max_da ex_area_offset) = Fin (7093169413108531 / 1125899906842624) \<and>
   Axis_X (ex_axis '''' [] :: float64 Axis) ex_area_offset (Max_ax (ex_axis '''' [] :: float64 Axis))
     = Fin (3546584706554265 / 562949953421312) \<and>
   \<not> feq (Fin (3546584706554265 / 562949953421312)) (Fin (7093169413108531 / 1125899906842624))"
  by (simp add: Axis_X_def ex_area_offset_def ex_defs fl_evals feq_def)

text \<open>
  C5 (as amended).  For every \<open>min\<close> and \<open>max\<close> the default generator returns five ticks.
  The first is at \<open>min\<close> and the fifth at \<open>max\<close>, as they are given; the first, third and
  fifth tick are labelled with the \<open>%g\<close> format of their value, and are major if \<open>%g\<close>
  writes none of the three as the empty string; the second and fourth have the empty
  label.  In exact arithmetic the five values are \<open>min + f * (max - min)\<close> for \<open>f\<close> in
  \<open>0, 1/4, 1/2, 3/4, 1\<close>.  In \<open>float64\<close> the second and the third value are
  \<open>min + f * (max - min)\<close> for \<open>f = 1/4\<close> and \<open>f = 1/2\<close>; the fourth is so for \<open>f = 3/4\<close> where
  \<open>3*(max - min)\<close> is finite; the first compares equal to it for \<open>f = 0\<close> where \<open>min\<close> and
  \<open>max - min\<close> are finite; the fifth is \<open>max\<close> and not \<open>min + 1 * (max - min)\<close>.  On the range
  from 0 to 100 the values are 0, 25, 50, 75 and 100 in \<open>float64\<close>, and where \<open>%g\<close> writes
  0, 50 and 100 as \<open>0\<close>, \<open>50\<close> and \<open>100\<close>, these are the labels.
\<close>

theorem C5_DefaultTicks_Marks:
  fixes mn mx :: "'a::{zero,one,plus,minus,times,inverse}" and a b :: real
    and lo hi :: float64
  shows
  "length (DefaultTicks_Marks fmt_g mn mx) = 5 \<and>
   Value (DefaultTicks_Marks fmt_g mn mx ! 0) = mn \<and>
   Value (DefaultTicks_Marks fmt_g mn mx ! 4) = mx \<and>
   map Label (DefaultTicks_Marks fmt_g mn mx) =
     [fmt_g (Value (DefaultTicks_Marks fmt_g mn mx ! 0)), '''',
      fmt_g (Value (DefaultTicks_Marks fmt_g mn mx ! 2)), '''',
      fmt_g (Value (DefaultTicks_Marks fmt_g mn mx ! 4))] \<and>
   (fmt_g (Value (DefaultTicks_Marks fmt_g mn mx ! 0)) \<noteq> '''' \<and>
    fmt_g (Value (DefaultTicks_Marks fmt_g mn mx ! 2)) \<noteq> '''' \<and>
    fmt_g (Value (DefaultTicks_Marks fmt_g mn mx ! 4)) \<noteq> '''' \<longrightarrow>
    map minor (DefaultTicks_Marks fmt_g mn mx) = [False, True, False, True, False]) \<and>
   map Value (DefaultTicks_Marks fmt_r a b) =
     map (\<lambda>f. a + f * (b - a)) [0, 1 / 4, 1 / 2, 3 / 4, 1] \<and>
   Value (DefaultTicks_Marks fmt_f lo hi ! 1) = lo + Fin (1 / 4) * (hi - lo) \<and>
   Value (DefaultTicks_Marks fmt_f lo hi ! 2) = lo + Fin (1 / 2) * (hi - lo) \<and>
   (is_finite (lit 3 * (hi - lo)) \<longrightarrow>
    Value (DefaultTicks_Marks fmt_f lo hi ! 3) = lo + Fin (3 / 4) * (hi - lo)) \<and>
   (finite64 lo \<and> is_finite (hi - lo) \<longrightarrow>
    feq (Value (DefaultTicks_Marks fmt_f lo hi ! 0)) (lo + Fin 0 * (hi - lo))) \<and>
   map Value (DefaultTicks_Marks fmt_f (Fin 0) (Fin 100)) =
     [Fin 0, Fin 25, Fin 50, Fin 75, Fin 100] \<and>
   (fmt_f (Fin 0) = ''0'' \<and> fmt_f (Fin 50) = ''50'' \<and> fmt_f (Fin 100) = ''100'' \<longrightarrow>
    map Label (DefaultTicks_Marks fmt_f (Fin 0) (Fin 100)) = [''0'', '''', ''50'', '''', ''100''])"
proof -
  have v: "map Value (DefaultTicks_Marks fmt_f (Fin 0) (Fin 100)) =
     [Fin 0, Fin 25, Fin 50, Fin 75, Fin 100]"
    by (simp add: DefaultTicks_Marks_def lit_float64 fl_evals)
  have l: "map Label (DefaultTicks_Marks fmt_f (Fin 0) (Fin 100)) =
     [fmt_f (Fin 0), '''', fmt_f (Fin 50), '''', fmt_f (Fin 100)]"
    by (simp add: DefaultTicks_Marks_def lit_float64 fl_evals)
  have r: "map Value (DefaultTicks_Marks fmt_r a b) =
     map (\<lambda>f. a + f * (b - a)) [0, 1 / 4, 1 / 2, 3 / 4, 1]"
    by (simp add: DefaultTicks_Marks_def lit_real field_simps)
  have q: "Value (DefaultTicks_Marks fmt_f lo hi ! 1) = lo + Fin (1 / 4) * (hi - lo)"
    by (simp add: DefaultTicks_Marks_def lit_float64 fdiv_quarter)
  have h: "Value (DefaultTicks_Marks fmt_f lo hi ! 2) = lo + Fin (1 / 2) * (hi - lo)"
    by (simp add: DefaultTicks_Marks_def lit_float64 fdiv_half)
  have t: "is_finite (lit 3 * (hi - lo)) \<longrightarrow>
    Value (DefaultTicks_Marks fmt_f lo hi ! 3) = lo + Fin (3 / 4) * (hi - lo)"
    using three_quarters [of "hi - lo"]
    by (simp add: DefaultTicks_Marks_def lit_float64)
  have z: "finite64 lo \<and> is_finite (hi - lo) \<longrightarrow>
    feq (Value (DefaultTicks_Marks fmt_f lo hi ! 0)) (lo + Fin 0 * (hi - lo))"
    using zero_fraction [of lo "hi - lo"] by (simp add: DefaultTicks_Marks_def)
  have g: "length (DefaultTicks_Marks fmt_g mn mx) = 5 \<and>
   Value (DefaultTicks_Marks fmt_g mn mx ! 0) = mn \<and>
   Value (DefaultTicks_Marks fmt_g mn mx ! 4) = mx \<and>
   map Label (DefaultTicks_Marks fmt_g mn mx) =
     [fmt_g (Value (DefaultTicks_Marks fmt_g mn mx ! 0)), '''',
      fmt_g (Value (DefaultTicks_Marks fmt_g mn mx ! 2)), '''',
      fmt_g (Value (DefaultTicks_Marks fmt_g mn mx ! 4))] \<and>
   (fmt_g (Value (DefaultTicks_Marks fmt_g mn mx ! 0)) \<noteq> '''' \<and>
    fmt_g (Value (DefaultTicks_Marks fmt_g mn mx ! 2)) \<noteq> '''' \<and>
    fmt_g (Value (DefaultTicks_Marks fmt_g mn mx ! 4)) \<noteq> '''' \<longrightarrow>
    map minor (DefaultTicks_Marks fmt_g mn mx) = [False, True, False, True, False])"
    by (simp add: DefaultTicks_Marks_def minor_def)
  have e: "fmt_f (Fin 0) = ''0'' \<and> fmt_f (Fin 50) = ''50'' \<and> fmt_f (Fin 100) = ''100'' \<longrightarrow>
    map Label (DefaultTicks_Marks fmt_f (Fin 0) (Fin 100)) = [''0'', '''', ''50'', '''', ''100'']"
    unfolding l by simp
  show ?thesis
    using g r q h t z v e by blast
qed

theorem C5_DefaultTicks_Marks_witness:
  "ex_fmt_g (Value (DefaultTicks_Marks ex_fmt_g (Fin 0) (Fin 100) ! 0)) \<noteq> '''' \<and>
   ex_fmt_g (Value (DefaultTicks_Marks ex_fmt_g (Fin 0) (Fin 100) ! 2)) \<noteq> '''' \<and>
   ex_fmt_g (Value (DefaultTicks_Marks ex_fmt_g (Fin 0) (Fin 100) ! 4)) \<noteq> '''' \<and>
   map minor (DefaultTicks_Marks ex_fmt_g (Fin 0) (Fin 100)) = [False, True, False, True, False] \<and>
   is_finite (lit 3 * (Fin 100 - Fin 0)) \<and>
   Value (DefaultTicks_Marks ex_fmt_g (Fin 0) (Fin 100) ! 3) = Fin 0 + Fin (3 / 4) * (Fin 100 - Fin 0) \<and>
   finite64 (Fin 0) \<and> is_finite (Fin 100 - Fin 0) \<and>
   feq (Value (DefaultTicks_Marks ex_fmt_g (Fin 0) (Fin 100) ! 0)) (Fin 0 + Fin 0 * (Fin 100 - Fin 0)) \<and>
   ex_fmt_g (Fin 0) = ''0'' \<and> ex_fmt_g (Fin 50) = ''50'' \<and> ex_fmt_g (Fin 100) = ''100'' \<and>
   map Label (DefaultTicks_Marks ex_fmt_g (Fin 0) (Fin 100)) = [''0'', '''', ''50'', '''', ''100'']"
proof -
  have f: "ex_fmt_g (Fin 0) = ''0''" "ex_fmt_g (Fin 50) = ''50''" "ex_fmt_g (Fin 100) = ''100''"
    by (simp_all add: ex_fmt_g_def)
  have v: "Value (DefaultTicks_Marks ex_fmt_g (Fin 0) (Fin 100) ! 0) = Fin 0"
    "Value (DefaultTicks_Marks ex_fmt_g (Fin 0) (Fin 100) ! 2) = Fin 50"
    "Value (DefaultTicks_Marks ex_fmt_g (Fin 0) (Fin 100) ! 4) = Fin 100"
    by (simp_all add: DefaultTicks_Marks_def lit_float64 fl_evals)
  have n: "ex_fmt_g (Value (DefaultTicks_Marks ex_fmt_g (Fin 0) (Fin 100) ! 0)) \<noteq> ''''"
    "ex_fmt_g (Value (DefaultTicks_Marks ex_fmt_g (Fin 0) (Fin 100) ! 2)) \<noteq> ''''"
    "ex_fmt_g (Value (DefaultTicks_Marks ex_fmt_g (Fin 0) (Fin 100) ! 4)) \<noteq> ''''"
    unfolding v f by simp_all
  have i: "is_finite (lit 3 * (Fin 100 - Fin 0))" "is_finite (Fin 100 - Fin 0)"
    by (simp_all add: lit_float64 fl_evals)
  have z: "finite64 (Fin 0)" using finite64_of_int [of 0] by simp
  note t = C5_DefaultTicks_Marks
    [where fmt_g = ex_fmt_g and mn = "Fin 0" and mx = "Fin 100" and fmt_f = ex_fmt_g
       and lo = "Fin 0" and hi = "Fin 100" and fmt_r = "\<lambda>x. decimal 0" and a = 0 and b = 1]
  show ?thesis
    using t n i z f by blast
qed

text \<open>
  The claim as it was stated fails in \<open>float64\<close> at the fraction 1.  On the range from 1.1
  to 6.3 the fifth tick is at \<open>max = 6.3\<close>, and \<open>min + 1 * (max - min)\<close> is
  \<open>1.1 + 5.199999999999999 = 6.299999999999999\<close>.
\<close>

theorem C5_last_fraction_counterexample:
  "Value (DefaultTicks_Marks ex_fmt_g (rnd (11 / 10)) (rnd (63 / 10)) ! 4)
     = Fin (7093169413108531 / 1125899906842624) \<and>
   rnd (11 / 10) + Fin 1 * (rnd (63 / 10) - rnd (11 / 10))
     = Fin (3546584706554265 / 562949953421312) \<and>
   \<not> feq (Fin (7093169413108531 / 1125899906842624)) (Fin (3546584706554265 / 562949953421312))"
  by (simp add: DefaultTicks_Marks_def fl_evals feq_def)

text \<open>
  C7.  \<open>labelHeight(ticks)\<close> is the ascent of the tick-label font converted to inches if
  the list has a major tick, and \<open>0\<close> otherwise.  \<open>labelWidth(ticks)\<close> is \<open>0\<close> when no tick
  is major; otherwise it is the greatest of the widths of the labels of the major ticks,
  converted to inches; minor ticks do not count.  The font is taken to measure no string
  with a negative width (nor with NaN).  The statement about \<open>labelWidth\<close> is given for
  \<open>float64\<close>, where a greatest width \<open>r\<close> is one that no width exceeds and that compares
  equal to one of them, and for exact arithmetic.
\<close>

theorem C7_labelHeight_labelWidth:
  fixes tick :: "'a::{zero,one,plus,inverse} TickMarks"
    and tickf :: "float64 TickMarks" and tickr :: "real TickMarks"
  shows
  "labelHeight tick ticks =
     (if \<exists>t\<in>set ticks. \<not> minor t then Ascent (Extents (Font (LabelStyle tick))) / PtInch
      else 0) \<and>
   ((\<forall>t\<in>set ticksf. minor t) \<longrightarrow> labelWidth tickf ticksf = 0) \<and>
   ((\<exists>t\<in>set ticksf. \<not> minor t) \<and>
    (\<forall>t\<in>set ticksf. \<not> minor t \<longrightarrow> 0 \<le> Width_font (Font (LabelStyle tickf)) (Label t)) \<longrightarrow>
    (\<exists>r. labelWidth tickf ticksf = r / PtInch \<and>
         (\<exists>u\<in>set ticksf. \<not> minor u \<and> feq r (Width_font (Font (LabelStyle tickf)) (Label u))) \<and>
         (\<forall>t\<in>set ticksf. \<not> minor t \<longrightarrow> Width_font (Font (LabelStyle tickf)) (Label t) \<le> r))) \<and>
   ((\<forall>t\<in>set ticksr. \<not> minor t \<longrightarrow> 0 \<le> Width_font (Font (LabelStyle tickr)) (Label t)) \<longrightarrow>
    labelWidth tickr ticksr =
      (if \<forall>t\<in>set ticksr. minor t then 0
       else Max ((\<lambda>t. Width_font (Font (LabelStyle tickr)) (Label t) / PtInch) `
                  {t \<in> set ticksr. \<not> minor t})))"
proof (intro conjI impI)
  show "labelHeight tick ticks =
     (if \<exists>t\<in>set ticks. \<not> minor t then Ascent (Extents (Font (LabelStyle tick))) / PtInch
      else 0)"
    by (induction ticks) simp_all
next
  assume "\<forall>t\<in>set ticksf. minor t"
  then have "labelWidth_loop tickf 0 ticksf = 0"
    using labelWidth_loop_cases [of tickf 0 ticksf] by auto
  then show "labelWidth tickf ticksf = 0"
    by (simp add: labelWidth_def PtInch_def lit_float64 zero_float64_def divide_float64_def
          fdiv_def is_zero_def signed_zero_def)
next
  let ?w = "\<lambda>t. Width_font (Font (LabelStyle tickf)) (Label t)"
  let ?r = "labelWidth_loop tickf 0 ticksf"
  assume "(\<exists>t\<in>set ticksf. \<not> minor t) \<and> (\<forall>t\<in>set ticksf. \<not> minor t \<longrightarrow> 0 \<le> ?w t)"
  then obtain v where v: "v \<in> set ticksf" "\<not> minor v"
    and nonneg: "\<forall>t\<in>set ticksf. \<not> minor t \<longrightarrow> 0 \<le> ?w t" by blast
  have nn: "\<forall>t\<in>set ticksf. \<not> minor t \<longrightarrow> ?w t \<noteq> NaN"
    using nonneg fle_not_NaN by blast
  have z: "(0 :: float64) \<noteq> NaN" by (simp add: zero_float64_def)
  have ge: "\<forall>t\<in>set ticksf. \<not> minor t \<longrightarrow> ?w t \<le> ?r"
    using labelWidth_loop_ge_width [OF z nn] by blast
  have "\<exists>u\<in>set ticksf. \<not> minor u \<and> feq ?r (?w u)"
  proof (cases "?r = 0")
    case True
    have "?w v \<le> 0" using ge v True by auto
    moreover have "0 \<le> ?w v" using nonneg v by blast
    ultimately have "feq 0 (?w v)" by (intro fle_antisym)
    then show ?thesis using v True by auto
  next
    case False
    then obtain u where u: "u \<in> set ticksf" "\<not> minor u" "?r = ?w u"
      using labelWidth_loop_cases [of tickf 0 ticksf] by blast
    have "feq (?w u) (?w u)" using nn u by (intro feq_refl) blast
    then show ?thesis using u by auto
  qed
  then show "\<exists>r. labelWidth tickf ticksf = r / PtInch \<and>
         (\<exists>u\<in>set ticksf. \<not> minor u \<and> feq r (?w u)) \<and>
         (\<forall>t\<in>set ticksf. \<not> minor t \<longrightarrow> ?w t \<le> r)"
    using ge by (intro exI [of _ ?r]) (simp add: labelWidth_def)
next
  let ?w = "\<lambda>t. Width_font (Font (LabelStyle tickr)) (Label t)"
  let ?M = "{t \<in> set ticksr. \<not> minor t}"
  assume nonneg: "\<forall>t\<in>set ticksr. \<not> minor t \<longrightarrow> 0 \<le> ?w t"
  have loop: "labelWidth_loop tickr 0 ticksr = Max (insert 0 (?w ` ?M))"
    by (rule labelWidth_loop_real)
  show "labelWidth tickr ticksr =
      (if \<forall>t\<in>set ticksr. minor t then 0 else Max ((\<lambda>t. ?w t / PtInch) ` ?M))"
  proof (cases "\<forall>t\<in>set ticksr. minor t")
    case True
    then have e: "?M = {}" by auto
    show ?thesis unfolding labelWidth_def loop e using True by simp
  next
    case False
    then have ne: "?w ` ?M \<noteq> {}" by auto
    have fin: "finite (?w ` ?M)" by simp
    have "0 \<le> Max (?w ` ?M)"
      using ne fin nonneg by (subst Max_ge_iff) auto
    then have eq1: "Max (insert 0 (?w ` ?M)) = Max (?w ` ?M)"
      using ne fin by (simp add: max_absorb2)
    have eq2: "Max (?w ` ?M) / PtInch = Max ((\<lambda>x. x / PtInch) ` (?w ` ?M))"
      using ne fin
      by (intro mono_Max_commute monoI divide_right_mono) (simp_all add: PtInch_def lit_real)
    have "labelWidth tickr ticksr = Max (?w ` ?M) / PtInch"
      unfolding labelWidth_def loop eq1 ..
    also have "\<dots> = Max ((\<lambda>x. x / PtInch) ` (?w ` ?M))" by (rule eq2)
    also have "\<dots> = Max ((\<lambda>t. ?w t / PtInch) ` ?M)" by (simp only: image_image)
    finally show ?thesis unfolding if_not_P [OF False] .
  qed
qed

theorem C7_labelHeight_labelWidth_witness:
  "labelHeight (ex_ticks [] :: float64 TickMarks) ex_marks = Fin (1 / 8) \<and>
   labelWidth (ex_ticks [] :: float64 TickMarks) [\<lparr>Value = Fin 5, Label = ''''\<rparr>] = 0 \<and>
   (\<exists>r. labelWidth (ex_ticks [] :: float64 TickMarks) ex_marks = r / PtInch \<and>
        (\<exists>u\<in>set (ex_marks :: float64 Tick list). \<not> minor u \<and>
           feq r (Width_font (Font (LabelStyle (ex_ticks [] :: float64 TickMarks))) (Label u))) \<and>
        (\<forall>t\<in>set (ex_marks :: float64 Tick list). \<not> minor t \<longrightarrow>
           Width_font (Font (LabelStyle (ex_ticks [] :: float64 TickMarks))) (Label t) \<le> r)) \<and>
   labelWidth (ex_ticks [] :: real TickMarks) ex_marks = 1 / 6"
proof -
  note minors = C7_labelHeight_labelWidth
    [of "ex_ticks [] :: float64 TickMarks" ex_marks "[\<lparr>Value = Fin 5, Label = ''''\<rparr>]" "ex_ticks []"
        ex_marks "ex_ticks []"]
  note majors = C7_labelHeight_labelWidth
    [of "ex_ticks [] :: float64 TickMarks" ex_marks ex_marks "ex_ticks []" ex_marks "ex_ticks []"]
  have h: "labelHeight (ex_ticks [] :: float64 TickMarks) ex_marks = Fin (1 / 8)"
    using majors [THEN conjunct1] by (simp add: ex_marks_def ex_defs fl_evals)
  have m: "labelWidth (ex_ticks [] :: float64 TickMarks) [\<lparr>Value = Fin 5, Label = ''''\<rparr>] = 0"
    using minors [THEN conjunct2, THEN conjunct1] by (simp add: minor_def)
  have pos: "\<forall>t\<in>set (ex_marks :: float64 Tick list). \<not> minor t \<longrightarrow>
      0 \<le> Width_font (Font (LabelStyle (ex_ticks [] :: float64 TickMarks))) (Label t)"
    by (simp add: ex_marks_def ex_defs)
  have ex: "\<exists>t\<in>set (ex_marks :: float64 Tick list). \<not> minor t"
    by (simp add: ex_marks_def minor_def)
  have posr: "\<forall>t\<in>set (ex_marks :: real Tick list). \<not> minor t \<longrightarrow>
      0 \<le> Width_font (Font (LabelStyle (ex_ticks [] :: real TickMarks))) (Label t)"
    by (simp add: ex_marks_def ex_ticks_def ex_font_def lit_real)
  have s: "{t \<in> set (ex_marks :: real Tick list). \<not> minor t} =
      {\<lparr>Value = 0, Label = ''0''\<rparr>, \<lparr>Value = lit 10, Label = ''10''\<rparr>}"
    by (auto simp: ex_marks_def minor_def)
  have "\<not> (\<forall>t\<in>set (ex_marks :: real Tick list). minor t)"
    by (simp add: ex_marks_def minor_def)
  then have r: "labelWidth (ex_ticks [] :: real TickMarks) ex_marks = 1 / 6"
    using mp [OF majors [THEN conjunct2, THEN conjunct2, THEN conjunct2] posr] unfolding s
    by (simp add: ex_ticks_def ex_font_def lit_real PtInch_def)
  note f = mp [OF majors [THEN conjunct2, THEN conjunct2, THEN conjunct1] conjI [OF ex pos]]
  show ?thesis by (rule conjI [OF h conjI [OF m conjI [OF f r]]])
qed

text \<open>
  C6.  The constant generator returns the list it holds, unchanged, for every \<open>min\<close> and
  \<open>max\<close>.
\<close>

theorem C6_ConstantTicks_Marks: "ConstantTicks_Marks tks mn mx = tks"
  by (simp add: ConstantTicks_Marks_def)

text \<open>
  C9 (as amended).  \<open>MakeTickMarks\<close> and \<open>MakeAxis\<close> have no error result.  When
  \<open>MakeFont\<close> fails they panic with its error, and that is their only panic:
  \<open>MakeTickMarks\<close> panics exactly when \<open>MakeFont(DefaultFont, 10)\<close> fails; \<open>MakeAxis\<close>
  panics exactly when \<open>MakeFont(DefaultFont, 12)\<close> fails, or it succeeds and
  \<open>MakeFont(DefaultFont, 10)\<close>, called by \<open>MakeTickMarks\<close>, fails; otherwise they return
  the default value.  The measuring and drawing functions take fonts that are loaded
  already and have no way to fail.
\<close>

theorem C9_constructors_panic:
  "(MakeTickMarks MakeFont fmt_g = Panic e \<longleftrightarrow> MakeFont DefaultFont (lit 10) = Inl e) \<and>
   (MakeAxis MakeFont Black math_Inf fmt_g = Panic e \<longleftrightarrow>
      MakeFont DefaultFont (lit 12) = Inl e \<or>
      (\<exists>f. MakeFont DefaultFont (lit 12) = Inr f) \<and> MakeFont DefaultFont (lit 10) = Inl e) \<and>
   ((\<exists>ticks. MakeTickMarks MakeFont fmt_g = Return ticks) \<longleftrightarrow>
      (\<exists>f. MakeFont DefaultFont (lit 10) = Inr f)) \<and>
   ((\<exists>a. MakeAxis MakeFont Black math_Inf fmt_g = Return a) \<longleftrightarrow>
      (\<exists>f. MakeFont DefaultFont (lit 12) = Inr f) \<and> (\<exists>f. MakeFont DefaultFont (lit 10) = Inr f))"
  by (auto simp: MakeAxis_def MakeTickMarks_def split: sum.splits outcome.splits)

text \<open>
  The claim as it was stated fails: when no font is found, neither constructor returns
  anything to its caller; both panic.
\<close>

theorem C9_error_result_counterexample:
  "MakeTickMarks ex_no_font ex_fmt_g = Panic ''font not found'' \<and>
   MakeAxis ex_no_font (RGBA 0 0 0 255) math_Inf_float64 ex_fmt_g = Panic ''font not found''"
  by (simp add: MakeAxis_def MakeTickMarks_def ex_no_font_def)

text \<open>
  C8.  A tick is minor exactly when its label is the empty string, and \<open>lengthOffset len\<close>
  is \<open>len / 2\<close> for a minor tick and \<open>0\<close> for a major one, for every \<open>len\<close>.
\<close>

theorem C8_minor_lengthOffset:
  "(minor t \<longleftrightarrow> Label t = '''') \<and>
   lengthOffset t len = (if Label t = '''' then len / lit 2 else 0)"
  by (simp add: minor_def lengthOffset_def)

theorem C8_minor_lengthOffset_witness:
  "minor \<lparr>Value = 1 :: real, Label = ''''\<rparr> \<and>
   \<not> minor \<lparr>Value = 1 :: real, Label = ''x''\<rparr> \<and>
   lengthOffset \<lparr>Value = 1 :: real, Label = ''''\<rparr> 3 = 3 / lit 2 \<and>
   lengthOffset \<lparr>Value = 1 :: real, Label = ''x''\<rparr> 3 = 0"
  using C8_minor_lengthOffset [of "\<lparr>Value = 1 :: real, Label = ''''\<rparr>" 3]
    C8_minor_lengthOffset [of "\<lparr>Value = 1 :: real, Label = ''x''\<rparr>" 3]
  by simp

text \<open>
  C10.  The default generator is documented to return tick marks within the given range,
  in order.  It does not on the range from 0 to \<open>1e308\<close>, where \<open>min <= max\<close>: the values it
  returns are \<open>0\<close>, \<open>2.5e307\<close>, \<open>5e307\<close>, \<open>+Inf\<close> and \<open>1e308\<close>.  The product \<open>3*(max - min)\<close> of
  the fourth tick is computed before the division and overflows, so that the fourth tick
  is at \<open>+Inf\<close>: above \<open>max\<close>, and above the fifth tick.  The second and third tick divide
  first and stay in the range.
\<close>

theorem C10_Marks_at_failing_input:
  "Fin 0 \<le> rnd (10 ^ 308) \<and>
   map Value (DefaultTicks_Marks ex_fmt_g (Fin 0) (rnd (10 ^ 308))) =
     [Fin 0, rnd (10 ^ 308) / Fin 4, rnd (10 ^ 308) / Fin 2, PInf, rnd (10 ^ 308)] \<and>
   Fin 0 \<le> rnd (10 ^ 308) / Fin 4 \<and> rnd (10 ^ 308) / Fin 4 \<le> rnd (10 ^ 308) / Fin 2 \<and>
   rnd (10 ^ 308) / Fin 2 \<le> rnd (10 ^ 308) \<and>
   Value (DefaultTicks_Marks ex_fmt_g (Fin 0) (rnd (10 ^ 308)) ! 3) = PInf \<and>
   Value (DefaultTicks_Marks ex_fmt_g (Fin 0) (rnd (10 ^ 308)) ! 4) = rnd (10 ^ 308) \<and>
   \<not> PInf \<le> rnd (10 ^ 308) \<and>
   \<not> sorted_wrt (\<le>) (map Value (DefaultTicks_Marks ex_fmt_g (Fin 0) (rnd (10 ^ 308)))) \<and>
   \<not> list_all (\<lambda>t. Fin 0 \<le> Value t \<and> Value t \<le> rnd (10 ^ 308))
        (DefaultTicks_Marks ex_fmt_g (Fin 0) (rnd (10 ^ 308)))"
  by (simp add: DefaultTicks_Marks_def lit_float64 fl_evals)

text \<open>
  The overflow of that product is the only way in which the ticks of a finite range
  \<open>min <= max\<close> leave it: where \<open>3*(max - min)\<close> is finite, the values of the five ticks are
  non-decreasing along the sequence and every one of them lies in \<open>[min, max]\<close>, the
  rounding of \<open>float64\<close> notwithstanding.  In exact arithmetic this holds for every
  \<open>min <= max\<close>.
\<close>

lemma DefaultTicks_within_unless_overflow:
  fixes mn mx :: float64 and a b :: real
  shows
  "(finite64 mn \<and> finite64 mx \<and> mn \<le> mx \<and> is_finite (lit 3 * (mx - mn)) \<longrightarrow>
      sorted_wrt (\<le>) (map Value (DefaultTicks_Marks fmt_g mn mx)) \<and>
      (\<forall>t\<in>set (DefaultTicks_Marks fmt_g mn mx). mn \<le> Value t \<and> Value t \<le> mx)) \<and>
   (a \<le> b \<longrightarrow>
      sorted_wrt (\<le>) (map Value (DefaultTicks_Marks fmt_r a b)) \<and>
      (\<forall>t\<in>set (DefaultTicks_Marks fmt_r a b). a \<le> Value t \<and> Value t \<le> b))"
proof (intro conjI impI)
  assume h: "finite64 mn \<and> finite64 mx \<and> mn \<le> mx \<and> is_finite (lit 3 * (mx - mn))"
  then have mn: "finite64 mn" and mx: "finite64 mx" and le: "mn \<le> mx"
    and fin3: "is_finite (Fin 3 * (mx - mn))" by (simp_all add: lit_float64)
  let ?d = "mx - mn"
  let ?v1 = "mn + ?d / Fin 4" and ?v2 = "mn + ?d / Fin 2" and ?v3 = "mn + Fin 3 * ?d / Fin 4"
  have fmn: "is_finite mn" using mn by (simp add: finite64_def)
  have d0: "Fin 0 \<le> ?d" using mn mx le by (rule fsub_nonneg)
  have dfin: "is_finite ?d"
    using fin3 by (cases ?d) (auto simp: times_float64_def fmul_def is_zero_def signed_inf_def)
  have "Fin 0 / Fin 4 \<le> ?d / Fin 4" using d0 by (intro fdiv_mono_left) simp_all
  moreover have "Fin 0 / Fin 4 = Fin 0"
    by (simp add: divide_float64_def fdiv_def is_zero_def signed_zero_def)
  ultimately have "mn + Fin 0 \<le> ?v1" using fmn by (intro fadd_mono_right) simp_all
  then have c1: "mn \<le> ?v1" using fadd_zero_ge [OF mn] fle_trans by blast
  have c2: "?v1 \<le> ?v2"
    using quarter_le_half [OF d0 dfin] fmn by (intro fadd_mono_right)
  have c3: "?v2 \<le> ?v3"
    using half_le_three_quarters [OF d0 _ fin3] fmn by (intro fadd_mono_right) simp_all
  have c4: "?v3 \<le> mx" using mn mx le fin3 by (rule last_tick_le)
  have r: "mn \<le> mn" "mx \<le> mx" "?v1 \<le> ?v1" "?v2 \<le> ?v2" "?v3 \<le> ?v3"
    using fle_not_NaN [OF c1] fle_not_NaN [OF c2] fle_not_NaN [OF c3] fle_not_NaN [OF c4]
    by (simp_all add: fle_refl)
  have t: "mn \<le> ?v2" "mn \<le> ?v3" "mn \<le> mx" "?v1 \<le> ?v3" "?v1 \<le> mx" "?v2 \<le> mx"
    using fle_trans [OF c1 c2] fle_trans [OF fle_trans [OF c1 c2] c3]
      fle_trans [OF fle_trans [OF fle_trans [OF c1 c2] c3] c4] fle_trans [OF c2 c3]
      fle_trans [OF fle_trans [OF c2 c3] c4] fle_trans [OF c3 c4]
    by simp_all
  show "sorted_wrt (\<le>) (map Value (DefaultTicks_Marks fmt_g mn mx))"
    using c1 c2 c3 c4 t by (simp add: DefaultTicks_Marks_def lit_float64)
  show "\<forall>t\<in>set (DefaultTicks_Marks fmt_g mn mx). mn \<le> Value t \<and> Value t \<le> mx"
    using c1 c2 c3 c4 t r by (simp add: DefaultTicks_Marks_def lit_float64)
next
  assume ab: "a \<le> b"
  show "sorted_wrt (\<le>) (map Value (DefaultTicks_Marks fmt_r a b))"
    using ab by (simp add: DefaultTicks_Marks_def lit_real field_simps)
  show "\<forall>t\<in>set (DefaultTicks_Marks fmt_r a b). a \<le> Value t \<and> Value t \<le> b"
    using ab by (simp add: DefaultTicks_Marks_def lit_real field_simps)
qed

end
